theory Spec2Isabelle
  imports Main "HOL-Library.Word"
begin

unbundle bit_operations_syntax

section \<open>Electric lock: the controller of main.c and the display driver of lcd.c\<close>

text \<open>
  The program runs on an MSP430 without an operating system. Its state is the seven
  global variables of main.c together with the peripheral registers it reads and
  writes. Every C function and interrupt service routine becomes a function on that
  state. The busy-wait \<^verbatim>\<open>__delay_cycles\<close> only consumes time and is left out.
\<close>

subsection \<open>Device constants\<close>

text \<open>
  The bit masks below are the values of the device header \<^verbatim>\<open>msp430.h\<close> of the
  MSP430F5xx family, which belongs to the compiler and not to the repository. The
  macros \<^verbatim>\<open>ONE_SECOND\<close> and \<^verbatim>\<open>ASCII_CONV\<close> and the masks of lcd.c are the
  repository's own.
\<close>

definition BIT2 :: "8 word" where "BIT2 = 0x04"
definition BIT3 :: "8 word" where "BIT3 = 0x08"
definition BIT4 :: "8 word" where "BIT4 = 0x10"
definition BIT5 :: "8 word" where "BIT5 = 0x20"
definition BIT6 :: "8 word" where "BIT6 = 0x40"

definition WDTPW :: "16 word" where "WDTPW = 0x5A00"
definition WDTHOLD :: "16 word" where "WDTHOLD = 0x0080"

definition ADC12ON :: "16 word" where "ADC12ON = 0x0010"
definition ADC12ENC :: "16 word" where "ADC12ENC = 0x0002"
definition ADC12SHS_1 :: "16 word" where "ADC12SHS_1 = 0x0400"
definition ADC12CONSEQ_2 :: "16 word" where "ADC12CONSEQ_2 = 0x0004"
definition ADC12INCH_14 :: "8 word" where "ADC12INCH_14 = 0x0E"
definition ADC12IE0 :: "16 word" where "ADC12IE0 = 0x0001"
definition ADC12IFG0 :: "16 word" where "ADC12IFG0 = 0x0001"

definition OUTMOD_4 :: "16 word" where "OUTMOD_4 = 0x0080"
definition CCIE :: "16 word" where "CCIE = 0x0010"
definition CCIFG :: "16 word" where "CCIFG = 0x0001"
definition TASSEL__ACLK :: "16 word" where "TASSEL__ACLK = 0x0100"
definition MC__UP :: "16 word" where "MC__UP = 0x0010"
definition MC__STOP :: "16 word" where "MC__STOP = 0x0000"

definition ONE_SECOND :: "16 word" where "ONE_SECOND = 32768 - 1"
definition ASCII_CONV :: "8 word" where "ASCII_CONV = 0x30"

definition LCD_EN :: "8 word" where "LCD_EN = BIT3"
definition LCD_RS :: "8 word" where "LCD_RS = BIT2"
definition MASK_UPPER :: "8 word" where "MASK_UPPER = 0xF0"
definition MASK_FULL :: "8 word" where "MASK_FULL = 0xFF"
definition MODE_FONT :: "8 word" where "MODE_FONT = 0x28"
definition CURS_BLINK :: "8 word" where "CURS_BLINK = 0x0C"
definition SHIFTR :: "8 word" where "SHIFTR = 0x06"
definition DDRAM :: "8 word" where "DDRAM = 0x80"
definition CLEAR_SCREEN :: "8 word" where "CLEAR_SCREEN = 0x01"

subsection \<open>The state\<close>

text \<open>
  The first seven fields are the globals of main.c, with their C types:
  \<^verbatim>\<open>uint8_t\<close> is an 8-bit word and the two arrays are lists (of length 4 in every
  state the program reaches). \<^verbatim>\<open>LED_PORT\<close> is \<open>P4OUT\<close>, the button port is port
  2, and \<^verbatim>\<open>LCD_PORT\<close> is \<open>P8OUT\<close>. The display only sees the sequence of values
  written to its port, so \<open>P8OUT\<close> records that sequence, oldest write first.
\<close>

record lock_state =
  seconds :: "8 word"
  password :: "8 word list"
  guess :: "8 word list"
  data_cnt :: "8 word"
  pressed :: "8 word"
  correct :: "8 word"
  conversion_allowed :: "8 word"
  WDTCTL :: "16 word"
  P4OUT :: "8 word"
  P4DIR :: "8 word"
  P2DIR :: "8 word"
  P2IES :: "8 word"
  P2IFG :: "8 word"
  P2IE :: "8 word"
  P7SEL :: "8 word"
  ADC12CTL0 :: "16 word"
  ADC12CTL1 :: "16 word"
  ADC12MCTL0 :: "8 word"
  ADC12IE :: "16 word"
  ADC12IFG :: "16 word"
  ADC12MEM0 :: "16 word"
  TA0CCTL0 :: "16 word"
  TA0CCR0 :: "16 word"
  TA0CTL :: "16 word"
  P8DIR :: "8 word"
  P8OUT :: "8 word list"

subsection \<open>lcd.c\<close>

definition lcd_reset :: "lock_state \<Rightarrow> lock_state" where
  "lcd_reset s =
     s\<lparr>P8DIR := MASK_FULL,
       P8OUT := P8OUT s @
         [MASK_FULL,
          0x30 + LCD_EN, 0x30,
          0x30 + LCD_EN, 0x30,
          0x30 + LCD_EN, 0x30,
          0x20 + LCD_EN, 0x20]\<rparr>"

definition lcd_command :: "8 word \<Rightarrow> lock_state \<Rightarrow> lock_state" where
  "lcd_command cmd s =
     s\<lparr>P8OUT := P8OUT s @
         [(cmd AND MASK_UPPER) OR LCD_EN,
          cmd AND MASK_UPPER,
          (push_bit 4 cmd AND MASK_UPPER) OR LCD_EN,
          push_bit 4 cmd AND MASK_UPPER]\<rparr>"

definition lcd_display :: "8 word \<Rightarrow> lock_state \<Rightarrow> lock_state" where
  "lcd_display dat0 s =
     (let dat = (if 0x39 < dat0 \<and> dat0 < 0x41 then 0x39 else dat0)
      in s\<lparr>P8OUT := P8OUT s @
           [(dat AND MASK_UPPER) OR LCD_EN OR LCD_RS,
            (dat AND MASK_UPPER) OR LCD_RS,
            (push_bit 4 dat AND MASK_UPPER) OR LCD_EN OR LCD_RS,
            (push_bit 4 dat AND MASK_UPPER) OR LCD_RS]\<rparr>)"

text \<open>
  A C string literal is the array of its characters followed by a zero byte.
  \<open>lcd_text_loop\<close> is the loop \<^verbatim>\<open>while(*text) lcd_display(*text++)\<close> over such an
  array: it stops at the first zero byte. The array of a literal always holds one, so
  the loop never reads past the end of the list.
\<close>

definition c_string :: "string \<Rightarrow> 8 word list" where
  "c_string txt = map of_char txt @ [0]"

fun lcd_text_loop :: "8 word list \<Rightarrow> lock_state \<Rightarrow> lock_state" where
  "lcd_text_loop [] s = s"
| "lcd_text_loop (c # cs) s = (if c = 0 then s else lcd_text_loop cs (lcd_display c s))"

definition lcd_text :: "string \<Rightarrow> 8 word \<Rightarrow> lock_state \<Rightarrow> lock_state" where
  "lcd_text txt pos s = lcd_text_loop (c_string txt) (lcd_command pos s)"

definition lcd_begin :: "lock_state \<Rightarrow> lock_state" where
  "lcd_begin s =
     (let s = lcd_command DDRAM s;
          s = lcd_display ASCII_CONV s;
          s = lcd_display ASCII_CONV s;
          s = lcd_display ASCII_CONV s;
          s = lcd_display ASCII_CONV s;
          s = lcd_text ''Enter PW'' 0xC1 s
      in lcd_command DDRAM s)"

definition lcd_initialization :: "lock_state \<Rightarrow> lock_state" where
  "lcd_initialization s =
     (let s = lcd_reset s;
          s = lcd_command MODE_FONT s;
          s = lcd_command CURS_BLINK s;
          s = lcd_command SHIFTR s;
          s = lcd_command CLEAR_SCREEN s
      in lcd_begin s)"

subsection \<open>main.c\<close>

definition turn_on_led :: "lock_state \<Rightarrow> lock_state" where
  "turn_on_led s0 =
     (let s = s0\<lparr>TA0CTL := TASSEL__ACLK OR MC__UP\<rparr>
      in if correct s = 0 then
           (let s = lcd_command 0x01 s;
                s = lcd_text ''WRONG'' 0x85 s;
                s = lcd_text ''PASSWORD'' 0xC4 s;
                s = s\<lparr>TA0CCR0 := ONE_SECOND\<rparr>;
                s = s\<lparr>TA0CCTL0 := TA0CCTL0 s OR CCIE\<rparr>
            in s\<lparr>P4OUT := P4OUT s OR BIT4\<rparr>)
         else if correct s = 1 then
           (let s = lcd_command 0x01 s;
                s = lcd_text ''UNLOCKED'' 0x84 s;
                s = s\<lparr>TA0CCR0 := ONE_SECOND\<rparr>;
                s = s\<lparr>TA0CCTL0 := TA0CCTL0 s OR CCIE\<rparr>
            in s\<lparr>P4OUT := P4OUT s OR BIT3\<rparr>)
         else s)"

text \<open>
  The loop of \<^verbatim>\<open>check_password\<close>, started at index \<open>i\<close>. The second component
  counts the evaluations of \<^verbatim>\<open>guess[i]!=password[i]\<close>; it is a probe added to the
  model and has no influence on the state.
\<close>

function password_loop :: "nat \<Rightarrow> lock_state \<Rightarrow> nat \<Rightarrow> lock_state \<times> nat" where
  "password_loop i s n =
     (if i < 4 then
        (if guess s ! i \<noteq> password s ! i then (s\<lparr>correct := 0\<rparr>, Suc n)
         else password_loop (Suc i) s (Suc n))
      else (s, n))"
  by pat_completeness auto
termination
  by (relation "measure (\<lambda>(i, s, n). 4 - i)") auto

declare password_loop.simps [simp del]

text \<open>
  \<^verbatim>\<open>check_password\<close>, returned together with the number of comparisons its loop made.
\<close>

definition check_password_probe :: "lock_state \<Rightarrow> lock_state \<times> nat" where
  "check_password_probe s0 =
     (let s = s0\<lparr>ADC12CTL0 := ADC12CTL0 s0 AND NOT ADC12ENC\<rparr>;
          s = s\<lparr>ADC12IE := ADC12IE s AND NOT ADC12IE0\<rparr>;
          s = s\<lparr>TA0CCR0 := 0\<rparr>;
          s = s\<lparr>TA0CTL := MC__STOP\<rparr>;
          s = s\<lparr>data_cnt := 0\<rparr>;
          (s, n) = password_loop 0 s 0
      in (turn_on_led s, n))"

definition check_password :: "lock_state \<Rightarrow> lock_state" where
  "check_password s = fst (check_password_probe s)"

definition comparisons :: "lock_state \<Rightarrow> nat" where
  "comparisons s = snd (check_password_probe s)"

text \<open>
  The C runtime gives the globals their initialisers before \<^verbatim>\<open>main\<close> runs; the
  registers keep whatever the hardware holds at power-up, which is the argument.
\<close>

definition startup :: "lock_state \<Rightarrow> lock_state" where
  "startup r =
     r\<lparr>seconds := 0, password := [1, 2, 3, 4], guess := [0, 0, 0, 0], data_cnt := 0,
       pressed := 0, correct := 1, conversion_allowed := 1\<rparr>"

text \<open>The statements of \<^verbatim>\<open>main\<close> before its loop.\<close>

definition main_init :: "lock_state \<Rightarrow> lock_state" where
  "main_init s0 =
     (let s = s0\<lparr>WDTCTL := WDTPW OR WDTHOLD\<rparr>;
          s = s\<lparr>P4OUT := P4OUT s AND NOT BIT3\<rparr>;
          s = s\<lparr>P4OUT := P4OUT s AND NOT BIT4\<rparr>;
          s = s\<lparr>P4OUT := P4OUT s AND NOT BIT5\<rparr>;
          s = s\<lparr>P4DIR := P4DIR s OR BIT3\<rparr>;
          s = s\<lparr>P4DIR := P4DIR s OR BIT4\<rparr>;
          s = s\<lparr>P4DIR := P4DIR s OR BIT5\<rparr>;
          s = s\<lparr>P2DIR := P2DIR s AND NOT BIT4\<rparr>;
          s = s\<lparr>P2IES := P2IES s OR BIT4\<rparr>;
          s = s\<lparr>P2IFG := P2IFG s AND NOT BIT4\<rparr>;
          s = s\<lparr>P2IE := P2IE s OR BIT4\<rparr>;
          s = s\<lparr>P7SEL := P7SEL s OR BIT6\<rparr>;
          s = s\<lparr>ADC12CTL0 := ADC12ON\<rparr>;
          s = s\<lparr>ADC12CTL1 := ADC12SHS_1 OR ADC12CONSEQ_2\<rparr>;
          s = s\<lparr>ADC12MCTL0 := ADC12INCH_14\<rparr>;
          s = s\<lparr>ADC12CTL0 := ADC12CTL0 s OR ADC12ENC\<rparr>;
          s = s\<lparr>ADC12IE := ADC12IE s OR ADC12IE0\<rparr>;
          s = s\<lparr>ADC12IFG := ADC12IFG s AND NOT ADC12IFG0\<rparr>;
          s = s\<lparr>TA0CCTL0 := OUTMOD_4\<rparr>;
          s = s\<lparr>TA0CCTL0 := TA0CCTL0 s AND NOT CCIE\<rparr>;
          s = s\<lparr>TA0CCR0 := 8191\<rparr>;
          s = s\<lparr>TA0CTL := TASSEL__ACLK OR MC__UP\<rparr>
      in lcd_initialization s)"

text \<open>
  The digit the program derives from a conversion result: the high nibble of the
  12-bit value in \<open>ADC12MEM0\<close>, as the expression \<^verbatim>\<open>(ADC12MEM0 >> 8) & 0x0F\<close>.
\<close>

definition sampled_digit :: "lock_state \<Rightarrow> 16 word" where
  "sampled_digit s = drop_bit 8 (ADC12MEM0 s) AND 0x0F"

text \<open>
  One pass through the body of \<^verbatim>\<open>while(1)\<close>. The store \<^verbatim>\<open>guess[data_cnt]\<close> is
  defined in C only for an index inside the array; a store outside it is the result
  \<open>None\<close>.
\<close>

definition main_loop :: "lock_state \<Rightarrow> lock_state option" where
  "main_loop s0 =
     (if pressed s0 = 1 then
        (case (if conversion_allowed s0 \<noteq> 0 then
                 (if unat (data_cnt s0) < length (guess s0) then
                    Some (s0\<lparr>guess := (guess s0)[unat (data_cnt s0) := ucast (sampled_digit s0)],
                             data_cnt := data_cnt s0 + 1\<rparr>)
                  else None)
               else Some s0) of
           None \<Rightarrow> None
         | Some s1 \<Rightarrow>
             (let s2 = (if 3 < data_cnt s1
                        then check_password (s1\<lparr>conversion_allowed := 0\<rparr>)
                        else s1)
              in Some (s2\<lparr>pressed := 0\<rparr>)))
      else Some s0)"

text \<open>
  The interrupt service routine of the converter. Its argument \<open>iv\<close> is the value the
  read of the interrupt vector register \<^verbatim>\<open>ADC12IV\<close> returns.
\<close>

definition ADC12ISR :: "16 word \<Rightarrow> lock_state \<Rightarrow> lock_state" where
  "ADC12ISR iv s0 =
     (let s = (if iv = 6 then
                 (if conversion_allowed s0 \<noteq> 0 then
                    (let s = lcd_command (0x80 + data_cnt s0) s0
                     in lcd_display (ucast (sampled_digit s) + ASCII_CONV) s)
                  else s0)
               else s0);
          s = s\<lparr>P4OUT := P4OUT s XOR BIT5\<rparr>
      in s\<lparr>ADC12IFG := ADC12IFG s AND NOT ADC12IFG0\<rparr>)"

definition Timer_A_CCR0_ISR :: "lock_state \<Rightarrow> lock_state" where
  "Timer_A_CCR0_ISR s0 =
     (let s = s0\<lparr>seconds := seconds s0 + 1\<rparr>;
          s = (if 2 < seconds s then
                 (let s = (if correct s \<noteq> 0 then s\<lparr>P4OUT := P4OUT s AND NOT BIT3\<rparr>
                           else s\<lparr>P4OUT := P4OUT s AND NOT BIT4\<rparr>);
                      s = s\<lparr>TA0CCTL0 := TA0CCTL0 s AND NOT CCIE\<rparr>;
                      s = lcd_command 0x01 s;
                      s = lcd_begin s;
                      s = s\<lparr>correct := 1\<rparr>;
                      s = s\<lparr>seconds := 0\<rparr>;
                      s = s\<lparr>TA0CCR0 := 8191\<rparr>;
                      s = s\<lparr>ADC12CTL0 := ADC12CTL0 s OR ADC12ENC\<rparr>;
                      s = s\<lparr>conversion_allowed := 1\<rparr>
                  in s\<lparr>ADC12IE := ADC12IE s OR ADC12IE0\<rparr>)
               else s)
      in s\<lparr>TA0CCTL0 := TA0CCTL0 s AND NOT CCIFG\<rparr>)"

subsection \<open>Interrupt sources and the interleaving of handlers\<close>

text \<open>
  Modelled from the spec: the handler of the confirm button (the Input Latch). No
  interrupt service routine for port 2 is among the sources, although \<^verbatim>\<open>main\<close>
  enables the interrupt of P2.4 and polls \<open>pressed\<close>. Following the specification,
  the handler unconditionally sets the confirmation flag and does nothing else.
\<close>

definition Input_Latch :: "lock_state \<Rightarrow> lock_state" where
  "Input_Latch s = s\<lparr>pressed := 1\<rparr>"

text \<open>
  What happens around the program: a falling edge on P2.4, the end of a conversion
  (with the value the vector register reads as, and the result), a compare event of
  timer A0 at \<open>TA0CCR0\<close>, and one pass of the main loop. Handlers run to completion
  and one at a time; the main loop is taken one pass at a time, so a handler that
  interrupts a pass in its middle is not described. Events are delivered from the state
  \<open>initial r\<close> on, in which \<^verbatim>\<open>main\<close> has enabled the interrupts.
\<close>

datatype event =
    Confirm_edge
  | Conversion "16 word" "16 word"
  | Timer_tick
  | Loop_pass

text \<open>
  The hardware calls a service routine only when the interrupt is enabled in the
  peripheral: the port interrupt needs the bit in \<open>P2IE\<close> (and the falling edge selected
  in \<open>P2IES\<close>), the converter needs \<open>ADC12ENC\<close> to convert at all and \<open>ADC12IE0\<close>
  to interrupt, the timer needs \<open>CCIE\<close>. A finished conversion stores its result in
  \<open>ADC12MEM0\<close> and raises \<open>ADC12IFG0\<close>; a compare event raises \<open>CCIFG\<close>.
\<close>

fun deliver :: "event \<Rightarrow> lock_state \<Rightarrow> lock_state option" where
  "deliver Confirm_edge s =
     (if P2IES s AND BIT4 \<noteq> 0 \<and> P2IE s AND BIT4 \<noteq> 0 then Some (Input_Latch s)
      else Some s)"
| "deliver (Conversion iv raw) s =
     (if ADC12CTL0 s AND ADC12ENC \<noteq> 0 then
        (let s1 = s\<lparr>ADC12MEM0 := raw, ADC12IFG := ADC12IFG s OR ADC12IFG0\<rparr>
         in if ADC12IE s1 AND ADC12IE0 \<noteq> 0 then Some (ADC12ISR iv s1) else Some s1)
      else Some s)"
| "deliver Timer_tick s =
     (let s1 = s\<lparr>TA0CCTL0 := TA0CCTL0 s OR CCIFG\<rparr>
      in if TA0CCTL0 s1 AND CCIE \<noteq> 0 then Some (Timer_A_CCR0_ISR s1) else Some s1)"
| "deliver Loop_pass s = main_loop s"

fun run :: "event list \<Rightarrow> lock_state \<Rightarrow> lock_state option" where
  "run [] s = Some s"
| "run (e # es) s = (case deliver e s of None \<Rightarrow> None | Some s' \<Rightarrow> run es s')"

definition initial :: "lock_state \<Rightarrow> lock_state" where
  "initial r = main_init (startup r)"

fun ticks :: "event list \<Rightarrow> nat" where
  "ticks [] = 0"
| "ticks (e # es) = (if e = Timer_tick then Suc (ticks es) else ticks es)"

subsection \<open>The two modes of the controller\<close>

text \<open>
  While digits are entered the gate \<open>conversion_allowed\<close> is 1; during the feedback
  window it is 0. Each mode fixes the values of the other cells.
\<close>

definition entry_mode :: "lock_state \<Rightarrow> bool" where
  "entry_mode s \<longleftrightarrow>
     conversion_allowed s = 1 \<and> correct s = 1 \<and> data_cnt s \<le> 3 \<and> seconds s = 0 \<and>
     TA0CCTL0 s AND CCIE = 0 \<and> TA0CCR0 s = 8191 \<and>
     ADC12CTL0 s AND ADC12ENC \<noteq> 0 \<and> ADC12IE s AND ADC12IE0 \<noteq> 0 \<and>
     P4OUT s AND BIT3 = 0 \<and> P4OUT s AND BIT4 = 0"

definition feedback_mode :: "lock_state \<Rightarrow> bool" where
  "feedback_mode s \<longleftrightarrow>
     conversion_allowed s = 0 \<and> data_cnt s = 0 \<and> seconds s \<le> 2 \<and>
     TA0CCTL0 s AND CCIE \<noteq> 0 \<and> TA0CCR0 s = ONE_SECOND \<and>
     TA0CTL s = TASSEL__ACLK OR MC__UP \<and>
     ADC12CTL0 s AND ADC12ENC = 0 \<and> ADC12IE s AND ADC12IE0 = 0 \<and>
     ((correct s = 1 \<and> P4OUT s AND BIT3 \<noteq> 0 \<and> P4OUT s AND BIT4 = 0) \<or>
      (correct s = 0 \<and> P4OUT s AND BIT4 \<noteq> 0 \<and> P4OUT s AND BIT3 = 0))"

definition lock_inv :: "lock_state \<Rightarrow> bool" where
  "lock_inv s \<longleftrightarrow>
     length (guess s) = 4 \<and> password s = [1, 2, 3, 4] \<and>
     P2IES s AND BIT4 \<noteq> 0 \<and> P2IE s AND BIT4 \<noteq> 0 \<and>
     (pressed s = 0 \<or> pressed s = 1) \<and>
     (entry_mode s \<or> feedback_mode s)"

text \<open>A power-up register file with every register zero and nothing written to the display.\<close>

definition zero_regs :: "lock_state" where
  "zero_regs =
     \<lparr>seconds = 0, password = [], guess = [], data_cnt = 0, pressed = 0, correct = 0,
      conversion_allowed = 0, WDTCTL = 0, P4OUT = 0, P4DIR = 0, P2DIR = 0, P2IES = 0,
      P2IFG = 0, P2IE = 0, P7SEL = 0, ADC12CTL0 = 0, ADC12CTL1 = 0, ADC12MCTL0 = 0,
      ADC12IE = 0, ADC12IFG = 0, ADC12MEM0 = 0, TA0CCTL0 = 0, TA0CCR0 = 0, TA0CTL = 0,
      P8DIR = 0, P8OUT = []\<rparr>"

subsection \<open>What a display routine writes to the port\<close>

text \<open>
  The display routines only append to the sequence of port writes, and what they
  append does not depend on the state. \<open>lcd_out f\<close> is the sequence \<open>f\<close> writes when
  nothing has been written before.
\<close>

definition lcd_out :: "(lock_state \<Rightarrow> lock_state) \<Rightarrow> 8 word list" where
  "lcd_out f = P8OUT (f zero_regs)"

fun text_writes :: "8 word list \<Rightarrow> 8 word list" where
  "text_writes [] = []"
| "text_writes (c # cs) = (if c = 0 then [] else lcd_out (lcd_display c) @ text_writes cs)"

definition begin_writes :: "8 word list" where
  "begin_writes =
     lcd_out (lcd_command DDRAM) @
     lcd_out (lcd_display ASCII_CONV) @ lcd_out (lcd_display ASCII_CONV) @
     lcd_out (lcd_display ASCII_CONV) @ lcd_out (lcd_display ASCII_CONV) @
     lcd_out (lcd_command 0xC1) @ text_writes (c_string ''Enter PW'') @
     lcd_out (lcd_command DDRAM)"

text \<open>The writes of the two feedback messages and of \<^verbatim>\<open>lcd_initialization\<close>.\<close>

definition unlocked_writes :: "8 word list" where
  "unlocked_writes =
     lcd_out (lcd_command 0x01) @
     lcd_out (lcd_command 0x84) @ text_writes (c_string ''UNLOCKED'')"

definition wrong_writes :: "8 word list" where
  "wrong_writes =
     lcd_out (lcd_command 0x01) @
     lcd_out (lcd_command 0x85) @ text_writes (c_string ''WRONG'') @
     lcd_out (lcd_command 0xC4) @ text_writes (c_string ''PASSWORD'')"

definition init_writes :: "8 word list" where
  "init_writes =
     lcd_out lcd_reset @ lcd_out (lcd_command MODE_FONT) @ lcd_out (lcd_command CURS_BLINK) @
     lcd_out (lcd_command SHIFTR) @ lcd_out (lcd_command CLEAR_SCREEN) @ begin_writes"

subsection \<open>The two transitions between the modes\<close>

text \<open>
  \<open>restart s\<close> is the state after the timer tick that ends the feedback window, and
  \<open>validated s\<close> the state after the pass of the main loop that stores the fourth
  digit and validates. Both are written here as one update of \<open>s\<close>; the lemmas
  \<open>feedback_tick_restart\<close> and \<open>loop_fourth\<close> below prove that the handlers
  produce exactly these states.
\<close>

definition restart :: "lock_state \<Rightarrow> lock_state" where
  "restart s =
     s\<lparr>seconds := 0, correct := 1, conversion_allowed := 1,
       P4OUT := (if correct s \<noteq> 0 then P4OUT s AND NOT BIT3 else P4OUT s AND NOT BIT4),
       TA0CCTL0 := ((TA0CCTL0 s OR CCIFG) AND NOT CCIE) AND NOT CCIFG, TA0CCR0 := 8191,
       ADC12CTL0 := ADC12CTL0 s OR ADC12ENC, ADC12IE := ADC12IE s OR ADC12IE0,
       P8OUT := P8OUT s @ lcd_out (lcd_command 0x01) @ begin_writes\<rparr>"

definition validated :: "lock_state \<Rightarrow> lock_state" where
  "validated s =
     (let g = (guess s)[3 := ucast (sampled_digit s)]
      in if g = password s then
           s\<lparr>guess := g, data_cnt := 0, pressed := 0, conversion_allowed := 0,
             ADC12CTL0 := ADC12CTL0 s AND NOT ADC12ENC, ADC12IE := ADC12IE s AND NOT ADC12IE0,
             TA0CTL := TASSEL__ACLK OR MC__UP, TA0CCR0 := ONE_SECOND,
             TA0CCTL0 := TA0CCTL0 s OR CCIE, P4OUT := P4OUT s OR BIT3,
             P8OUT := P8OUT s @ unlocked_writes\<rparr>
         else
           s\<lparr>guess := g, data_cnt := 0, pressed := 0, correct := 0, conversion_allowed := 0,
             ADC12CTL0 := ADC12CTL0 s AND NOT ADC12ENC, ADC12IE := ADC12IE s AND NOT ADC12IE0,
             TA0CTL := TASSEL__ACLK OR MC__UP, TA0CCR0 := ONE_SECOND,
             TA0CCTL0 := TA0CCTL0 s OR CCIE, P4OUT := P4OUT s OR BIT4,
             P8OUT := P8OUT s @ wrong_writes\<rparr>)"

subsection \<open>Concrete states and runs\<close>

text \<open>Scenario B at the entry of \<^verbatim>\<open>check_password\<close>: the secret 1 2 3 4 against the guess 1 2 9 4.\<close>

definition scenario_B_state :: lock_state where
  "scenario_B_state = (startup zero_regs)\<lparr>guess := [1, 2, 9, 4]\<rparr>"

text \<open>
  Entering one digit: a conversion result arrives, the button is pressed, the main
  loop makes a pass. Scenario A enters 1 2 3 4, scenario B enters 1 2 9 4.
\<close>

definition enter :: "16 word \<Rightarrow> event list" where
  "enter raw = [Conversion 6 raw, Confirm_edge, Loop_pass]"

definition scenario_A :: "event list" where
  "scenario_A = enter 0x0100 @ enter 0x0200 @ enter 0x0300 @ enter 0x0400"

definition scenario_B :: "event list" where
  "scenario_B = enter 0x0100 @ enter 0x0200 @ enter 0x0900 @ enter 0x0400"

text \<open>Scenario B up to the fourth press of the button, and scenario B with two ticks after it.\<close>

definition three_entered :: "event list" where
  "three_entered = enter 0x0100 @ enter 0x0200 @ enter 0x0900 @ [Conversion 6 0x0400, Confirm_edge]"

definition window_B :: "event list" where
  "window_B = scenario_B @ [Timer_tick, Timer_tick]"

subsection \<open>What the display receives\<close>

text \<open>
  How the display reads its port in 4-bit mode: a byte is transferred as two pulses of
  the enable line, upper nibble first, and the register-select line tells a character
  from a command. Each \<^verbatim>\<open>lcd_command\<close> and \<^verbatim>\<open>lcd_display\<close> makes four writes: the
  upper nibble with the enable bit, the same without it, then the lower nibble likewise.
\<close>

datatype lcd_item = Command "8 word" | Character "8 word"

fun lcd_read :: "8 word list \<Rightarrow> lcd_item list" where
  "lcd_read (a # b # c # d # ws) =
     (let byte = (a AND MASK_UPPER) OR drop_bit 4 (c AND MASK_UPPER)
      in (if a AND LCD_RS \<noteq> 0 then Character byte else Command byte)) # lcd_read ws"
| "lcd_read ws = []"

definition characters :: "string \<Rightarrow> lcd_item list" where
  "characters txt = map (\<lambda>c. Character (of_char c)) txt"

section \<open>Basic facts\<close>

named_theorems device_defs

lemmas mask_values [device_defs] =
  BIT2_def BIT3_def BIT4_def BIT5_def BIT6_def WDTPW_def WDTHOLD_def
  ADC12ON_def ADC12ENC_def ADC12SHS_1_def ADC12CONSEQ_2_def ADC12INCH_14_def
  ADC12IE0_def ADC12IFG0_def OUTMOD_4_def CCIE_def CCIFG_def TASSEL__ACLK_def
  MC__UP_def MC__STOP_def ONE_SECOND_def ASCII_CONV_def LCD_EN_def LCD_RS_def
  MASK_UPPER_def MASK_FULL_def MODE_FONT_def CURS_BLINK_def SHIFTR_def DDRAM_def
  CLEAR_SCREEN_def

lemma set_then_test: "((x::'a::len word) OR m) AND m = m"
  by (simp add: word_ao_absorbs)

lemma clear_then_test: "((x::'a::len word) AND NOT m) AND m = 0"
  by (simp add: and.assoc)

lemma clear_other: "m AND k = 0 \<Longrightarrow> ((x::'a::len word) AND NOT m) AND k = x AND k"
  by (auto simp add: bit_eq_iff bit_simps)

lemma set_other: "m AND k = 0 \<Longrightarrow> ((x::'a::len word) OR m) AND k = x AND k"
  by (auto simp add: bit_eq_iff bit_simps)

lemma toggle_other: "m AND k = 0 \<Longrightarrow> ((x::'a::len word) XOR m) AND k = x AND k"
  by (auto simp add: bit_eq_iff bit_simps)

subsection \<open>The display routines append to the port trace\<close>

lemma lcd_command_out: "lcd_command c s = s\<lparr>P8OUT := P8OUT s @ lcd_out (lcd_command c)\<rparr>"
  by (simp add: lcd_command_def lcd_out_def zero_regs_def)

lemma lcd_display_out: "lcd_display c s = s\<lparr>P8OUT := P8OUT s @ lcd_out (lcd_display c)\<rparr>"
  by (simp add: lcd_display_def lcd_out_def zero_regs_def Let_def)

lemma lcd_text_loop_out: "lcd_text_loop cs s = s\<lparr>P8OUT := P8OUT s @ text_writes cs\<rparr>"
proof (induction cs arbitrary: s)
  case Nil
  show ?case by simp
next
  case (Cons c cs)
  show ?case
  proof (cases "c = 0")
    case True
    then show ?thesis by simp
  next
    case False
    have "lcd_text_loop (c # cs) s = lcd_text_loop cs (lcd_display c s)"
      using False by simp
    also have "\<dots> = (lcd_display c s)\<lparr>P8OUT := P8OUT (lcd_display c s) @ text_writes cs\<rparr>"
      by (rule Cons.IH)
    also have "\<dots> = s\<lparr>P8OUT := P8OUT s @ text_writes (c # cs)\<rparr>"
      using False by (subst (1 2) lcd_display_out) simp
    finally show ?thesis .
  qed
qed

lemma lcd_text_out:
  "lcd_text txt pos s =
     s\<lparr>P8OUT := P8OUT s @ lcd_out (lcd_command pos) @ text_writes (c_string txt)\<rparr>"
  unfolding lcd_text_def lcd_text_loop_out by (subst (1 2) lcd_command_out) simp

lemma lcd_begin_out: "lcd_begin s = s\<lparr>P8OUT := P8OUT s @ begin_writes\<rparr>"
  unfolding lcd_begin_def Let_def lcd_text_out
  by (simp add: lcd_command_out [of _ "_\<lparr>P8OUT := _\<rparr>"] lcd_command_out [of _ s]
      lcd_display_out [of _ "_\<lparr>P8OUT := _\<rparr>"] begin_writes_def)

subsection \<open>The handlers as single updates\<close>

lemma timer_count:
  "seconds s + 1 \<le> 2 \<Longrightarrow>
   Timer_A_CCR0_ISR s = s\<lparr>seconds := seconds s + 1, TA0CCTL0 := TA0CCTL0 s AND NOT CCIFG\<rparr>"
  by (simp add: Timer_A_CCR0_ISR_def Let_def not_less)

lemma timer_restart:
  "2 < seconds s + 1 \<Longrightarrow>
   Timer_A_CCR0_ISR s =
     s\<lparr>seconds := 0, correct := 1, conversion_allowed := 1,
       P4OUT := (if correct s \<noteq> 0 then P4OUT s AND NOT BIT3 else P4OUT s AND NOT BIT4),
       TA0CCTL0 := (TA0CCTL0 s AND NOT CCIE) AND NOT CCIFG, TA0CCR0 := 8191,
       ADC12CTL0 := ADC12CTL0 s OR ADC12ENC, ADC12IE := ADC12IE s OR ADC12IE0,
       P8OUT := P8OUT s @ lcd_out (lcd_command 0x01) @ begin_writes\<rparr>"
  by (simp add: Timer_A_CCR0_ISR_def Let_def lcd_begin_out lcd_command_out [of _ "_\<lparr>P4OUT := _\<rparr>"]
      lcd_command_out [of _ "_\<lparr>TA0CCTL0 := _\<rparr>"])

lemma turn_on_led_wrong:
  "correct s = 0 \<Longrightarrow>
   turn_on_led s =
     s\<lparr>TA0CTL := TASSEL__ACLK OR MC__UP, TA0CCR0 := ONE_SECOND,
       TA0CCTL0 := TA0CCTL0 s OR CCIE, P4OUT := P4OUT s OR BIT4,
       P8OUT := P8OUT s @ lcd_out (lcd_command 0x01) @
                lcd_out (lcd_command 0x85) @ text_writes (c_string ''WRONG'') @
                lcd_out (lcd_command 0xC4) @ text_writes (c_string ''PASSWORD'')\<rparr>"
  by (simp add: turn_on_led_def Let_def lcd_text_out lcd_command_out [of _ "_\<lparr>TA0CTL := _\<rparr>"])

lemma turn_on_led_right:
  "correct s = 1 \<Longrightarrow>
   turn_on_led s =
     s\<lparr>TA0CTL := TASSEL__ACLK OR MC__UP, TA0CCR0 := ONE_SECOND,
       TA0CCTL0 := TA0CCTL0 s OR CCIE, P4OUT := P4OUT s OR BIT3,
       P8OUT := P8OUT s @ lcd_out (lcd_command 0x01) @
                lcd_out (lcd_command 0x84) @ text_writes (c_string ''UNLOCKED'')\<rparr>"
  by (simp add: turn_on_led_def Let_def lcd_text_out lcd_command_out [of _ "_\<lparr>TA0CTL := _\<rparr>"])

lemma ADC12ISR_echo:
  "conversion_allowed s \<noteq> 0 \<Longrightarrow>
   ADC12ISR 6 s =
     s\<lparr>P4OUT := P4OUT s XOR BIT5, ADC12IFG := ADC12IFG s AND NOT ADC12IFG0,
       P8OUT := P8OUT s @ lcd_out (lcd_command (0x80 + data_cnt s)) @
                lcd_out (lcd_display (ucast (sampled_digit s) + ASCII_CONV))\<rparr>"
  by (simp add: ADC12ISR_def Let_def sampled_digit_def lcd_command_out [of _ s]
      lcd_display_out [of _ "_\<lparr>P8OUT := _\<rparr>"])

lemma ADC12ISR_silent:
  "conversion_allowed s = 0 \<or> iv \<noteq> 6 \<Longrightarrow>
   ADC12ISR iv s = s\<lparr>P4OUT := P4OUT s XOR BIT5, ADC12IFG := ADC12IFG s AND NOT ADC12IFG0\<rparr>"
  by (auto simp add: ADC12ISR_def Let_def)

subsection \<open>The comparison loop\<close>

lemma password_loop_state:
  "fst (password_loop i s n) = s \<or> fst (password_loop i s n) = s\<lparr>correct := 0\<rparr>"
proof (induction i s n rule: password_loop.induct)
  case (1 i s n)
  then show ?case by (subst (1 2) password_loop.simps) simp
qed

lemma password_loop_match:
  "(\<forall>j. i \<le> j \<and> j < 4 \<longrightarrow> guess s ! j = password s ! j) \<Longrightarrow>
   password_loop i s n = (s, n + (4 - i))"
proof (induction i s n rule: password_loop.induct)
  case (1 i s n)
  show ?case
  proof (cases "i < 4")
    case True
    then have eq: "guess s ! i = password s ! i" using "1.prems" by simp
    have "password_loop (Suc i) s (Suc n) = (s, Suc n + (4 - Suc i))"
      using True eq "1.prems" by (intro "1.IH") auto
    then show ?thesis using True eq by (subst password_loop.simps) simp
  next
    case False
    then show ?thesis by (subst password_loop.simps) simp
  qed
qed

lemma password_loop_mismatch:
  "i \<le> k \<Longrightarrow> k < 4 \<Longrightarrow> (\<forall>j. i \<le> j \<and> j < k \<longrightarrow> guess s ! j = password s ! j) \<Longrightarrow>
   guess s ! k \<noteq> password s ! k \<Longrightarrow>
   password_loop i s n = (s\<lparr>correct := 0\<rparr>, n + (k - i) + 1)"
proof (induction i s n rule: password_loop.induct)
  case (1 i s n)
  show ?case
  proof (cases "i = k")
    case True
    then show ?thesis using "1.prems" by (subst password_loop.simps) simp
  next
    case False
    then have lt: "i < k" using "1.prems" by simp
    then have eq: "guess s ! i = password s ! i" using "1.prems" by simp
    have "password_loop (Suc i) s (Suc n) = (s\<lparr>correct := 0\<rparr>, Suc n + (k - Suc i) + 1)"
      using lt eq "1.prems" by (intro "1.IH") auto
    then show ?thesis using lt eq "1.prems" by (subst password_loop.simps) simp
  qed
qed

lemma first_mismatch:
  "\<not> (\<forall>i<4. (xs :: 8 word list) ! i = ys ! i) \<Longrightarrow>
   \<exists>k<4. (\<forall>j<k. xs ! j = ys ! j) \<and> xs ! k \<noteq> ys ! k"
proof -
  assume a: "\<not> (\<forall>i<4. xs ! i = ys ! i)"
  define k where "k = (LEAST i. xs ! i \<noteq> ys ! i)"
  from a obtain i where i: "i < 4" "xs ! i \<noteq> ys ! i" by auto
  have "xs ! k \<noteq> ys ! k" unfolding k_def using i(2) by (rule LeastI)
  moreover have "k \<le> i" unfolding k_def using i(2) by (rule Least_le)
  moreover have "\<forall>j<k. xs ! j = ys ! j" unfolding k_def using not_less_Least by blast
  ultimately show ?thesis using i(1) by (intro exI [of _ k]) auto
qed

lemma correct_turn_on_led: "correct (turn_on_led s) = correct s"
proof -
  consider "correct s = 0" | "correct s = 1" | "correct s \<noteq> 0" "correct s \<noteq> 1" by blast
  then show ?thesis
  proof cases
    case 1
    then show ?thesis by (simp add: turn_on_led_wrong)
  next
    case 2
    then show ?thesis by (simp add: turn_on_led_right)
  next
    case 3
    then show ?thesis by (simp add: turn_on_led_def Let_def)
  qed
qed

lemma lists4_eq:
  "length (xs :: 8 word list) = 4 \<Longrightarrow> length ys = 4 \<Longrightarrow> xs = ys \<longleftrightarrow> (\<forall>i<4. xs ! i = ys ! i)"
  by (simp add: list_eq_iff_nth_eq)

lemma check_password_probe_match:
  assumes "\<forall>i<4. guess s ! i = password s ! i"
  shows "check_password_probe s =
     (turn_on_led (s\<lparr>ADC12CTL0 := ADC12CTL0 s AND NOT ADC12ENC, ADC12IE := ADC12IE s AND NOT ADC12IE0,
        TA0CCR0 := 0, TA0CTL := MC__STOP, data_cnt := 0\<rparr>), 4)"
  using assms by (simp add: check_password_probe_def Let_def password_loop_match)

lemma check_password_probe_mismatch:
  assumes "k < 4" "\<forall>j<k. guess s ! j = password s ! j" "guess s ! k \<noteq> password s ! k"
  shows "check_password_probe s =
     (turn_on_led (s\<lparr>ADC12CTL0 := ADC12CTL0 s AND NOT ADC12ENC, ADC12IE := ADC12IE s AND NOT ADC12IE0,
        TA0CCR0 := 0, TA0CTL := MC__STOP, data_cnt := 0, correct := 0\<rparr>), k + 1)"
proof -
  let ?s = "s\<lparr>ADC12CTL0 := ADC12CTL0 s AND NOT ADC12ENC, ADC12IE := ADC12IE s AND NOT ADC12IE0,
        TA0CCR0 := 0, TA0CTL := MC__STOP, data_cnt := 0\<rparr>"
  have "password_loop 0 ?s 0 = (?s\<lparr>correct := 0\<rparr>, 0 + (k - 0) + 1)"
    using assms by (intro password_loop_mismatch) auto
  then show ?thesis by (simp add: check_password_probe_def Let_def)
qed

subsection \<open>Masks, initialisation and the passes of the main loop\<close>

lemma mask_facts:
  "BIT3 AND BIT4 = 0" "BIT4 AND BIT3 = 0" "BIT5 AND BIT3 = 0" "BIT5 AND BIT4 = 0"
  "CCIFG AND CCIE = 0" "CCIE AND CCIFG = 0"
  "BIT3 \<noteq> 0" "BIT4 \<noteq> 0" "CCIE \<noteq> 0" "ADC12ENC \<noteq> 0" "ADC12IE0 \<noteq> 0"
  by (simp_all add: device_defs)

lemmas mask_simps =
  set_then_test clear_then_test clear_other set_other toggle_other mask_facts

lemma lcd_initialization_out:
  "lcd_initialization s = s\<lparr>P8DIR := MASK_FULL, P8OUT := P8OUT s @ init_writes\<rparr>"
  unfolding lcd_initialization_def Let_def lcd_begin_out
  by (simp add: lcd_command_out [of _ "_\<lparr>P8OUT := _\<rparr>"] lcd_command_out [of _ "lcd_reset _"]
      init_writes_def) (simp add: lcd_reset_def lcd_out_def zero_regs_def)

lemma check_password_result:
  assumes "length (guess s) = 4" "length (password s) = 4" "correct s = 1"
  shows "check_password s =
     (if guess s = password s then
        s\<lparr>ADC12CTL0 := ADC12CTL0 s AND NOT ADC12ENC, ADC12IE := ADC12IE s AND NOT ADC12IE0,
          data_cnt := 0, TA0CTL := TASSEL__ACLK OR MC__UP, TA0CCR0 := ONE_SECOND,
          TA0CCTL0 := TA0CCTL0 s OR CCIE, P4OUT := P4OUT s OR BIT3,
          P8OUT := P8OUT s @ unlocked_writes\<rparr>
      else
        s\<lparr>ADC12CTL0 := ADC12CTL0 s AND NOT ADC12ENC, ADC12IE := ADC12IE s AND NOT ADC12IE0,
          data_cnt := 0, correct := 0, TA0CTL := TASSEL__ACLK OR MC__UP, TA0CCR0 := ONE_SECOND,
          TA0CCTL0 := TA0CCTL0 s OR CCIE, P4OUT := P4OUT s OR BIT4,
          P8OUT := P8OUT s @ wrong_writes\<rparr>)"
proof (cases "\<forall>i<4. guess s ! i = password s ! i")
  case True
  then have eq: "guess s = password s" using assms by (simp add: lists4_eq)
  show ?thesis
    using eq assms(3) check_password_probe_match [OF True]
    by (simp add: check_password_def turn_on_led_right unlocked_writes_def)
next
  case False
  then have neq: "guess s \<noteq> password s" using assms by (simp add: lists4_eq)
  from first_mismatch [OF False] obtain k where
    k: "k < 4" "\<forall>j<k. guess s ! j = password s ! j" "guess s ! k \<noteq> password s ! k" by blast
  show ?thesis
    using neq check_password_probe_mismatch [OF k]
    by (simp add: check_password_def turn_on_led_wrong wrong_writes_def)
qed

lemma main_loop_idle: "pressed s \<noteq> 1 \<Longrightarrow> main_loop s = Some s"
  by (simp add: main_loop_def)

lemma main_loop_discard:
  "pressed s = 1 \<Longrightarrow> conversion_allowed s = 0 \<Longrightarrow> data_cnt s \<le> 3 \<Longrightarrow>
   main_loop s = Some (s\<lparr>pressed := 0\<rparr>)"
  by (simp add: main_loop_def Let_def not_less)

lemma main_loop_accept:
  "pressed s = 1 \<Longrightarrow> conversion_allowed s \<noteq> 0 \<Longrightarrow> data_cnt s < 3 \<Longrightarrow> length (guess s) = 4 \<Longrightarrow>
   main_loop s =
     Some (s\<lparr>guess := (guess s)[unat (data_cnt s) := ucast (sampled_digit s)],
             data_cnt := data_cnt s + 1, pressed := 0\<rparr>)"
proof -
  assume a: "pressed s = 1" "conversion_allowed s \<noteq> 0" "data_cnt s < 3" "length (guess s) = 4"
  have "unat (data_cnt s) < 4" and "\<not> 3 < data_cnt s + 1"
    using a(3) by unat_arith+
  then show ?thesis using a by (simp add: main_loop_def Let_def)
qed

lemma main_loop_fourth:
  "pressed s = 1 \<Longrightarrow> conversion_allowed s \<noteq> 0 \<Longrightarrow> data_cnt s = 3 \<Longrightarrow> length (guess s) = 4 \<Longrightarrow>
   main_loop s =
     Some ((check_password
             (s\<lparr>guess := (guess s)[3 := ucast (sampled_digit s)],
                data_cnt := 4, conversion_allowed := 0\<rparr>))\<lparr>pressed := 0\<rparr>)"
  by (simp add: main_loop_def Let_def)

subsection \<open>The invariant\<close>

text \<open>
  Every state reached from initialisation is in one of the two modes, and no run
  stores outside the array \<open>guess\<close>: \<open>run\<close> never yields \<open>None\<close>.
\<close>

lemma entry_mode_initial: "entry_mode (initial r)"
  by (simp add: initial_def main_init_def startup_def Let_def lcd_initialization_out
      entry_mode_def mask_simps)

lemma lock_inv_initial: "lock_inv (initial r)"
  using entry_mode_initial [of r]
  by (simp add: lock_inv_def)
     (simp add: initial_def main_init_def startup_def Let_def lcd_initialization_out mask_simps)

lemma deliver_confirm: "lock_inv s \<Longrightarrow> deliver Confirm_edge s = Some (s\<lparr>pressed := 1\<rparr>)"
  by (simp add: lock_inv_def Input_Latch_def)

lemma deliver_conversion_entry:
  "entry_mode s \<Longrightarrow>
   deliver (Conversion iv raw) s =
     Some (ADC12ISR iv (s\<lparr>ADC12MEM0 := raw, ADC12IFG := ADC12IFG s OR ADC12IFG0\<rparr>))"
  by (simp add: entry_mode_def Let_def)

lemma deliver_conversion_feedback:
  "feedback_mode s \<Longrightarrow> deliver (Conversion iv raw) s = Some s"
  by (simp add: feedback_mode_def)

lemma deliver_tick_entry:
  "entry_mode s \<Longrightarrow> deliver Timer_tick s = Some (s\<lparr>TA0CCTL0 := TA0CCTL0 s OR CCIFG\<rparr>)"
  by (simp add: entry_mode_def Let_def mask_simps)

lemma deliver_tick_feedback:
  "feedback_mode s \<Longrightarrow>
   deliver Timer_tick s = Some (Timer_A_CCR0_ISR (s\<lparr>TA0CCTL0 := TA0CCTL0 s OR CCIFG\<rparr>))"
  by (simp add: feedback_mode_def Let_def mask_simps)

lemma ADC12ISR_frame:
  "\<exists>ws. ADC12ISR iv s =
     s\<lparr>P4OUT := P4OUT s XOR BIT5, ADC12IFG := ADC12IFG s AND NOT ADC12IFG0,
       P8OUT := P8OUT s @ ws\<rparr>"
proof (cases "conversion_allowed s \<noteq> 0 \<and> iv = 6")
  case True
  then show ?thesis by (auto simp add: ADC12ISR_echo)
next
  case False
  then have "ADC12ISR iv s = s\<lparr>P4OUT := P4OUT s XOR BIT5, ADC12IFG := ADC12IFG s AND NOT ADC12IFG0\<rparr>"
    by (intro ADC12ISR_silent) auto
  then have "ADC12ISR iv s = s\<lparr>P4OUT := P4OUT s XOR BIT5, ADC12IFG := ADC12IFG s AND NOT ADC12IFG0,
       P8OUT := P8OUT s @ []\<rparr>" by simp
  then show ?thesis by blast
qed

lemma entry_mode_conversion:
  assumes "lock_inv s" "entry_mode s"
  shows "\<exists>s'. deliver (Conversion iv raw) s = Some s' \<and> lock_inv s' \<and> entry_mode s'"
proof -
  let ?s1 = "s\<lparr>ADC12MEM0 := raw, ADC12IFG := ADC12IFG s OR ADC12IFG0\<rparr>"
  obtain ws where ws: "ADC12ISR iv ?s1 =
     ?s1\<lparr>P4OUT := P4OUT ?s1 XOR BIT5, ADC12IFG := ADC12IFG ?s1 AND NOT ADC12IFG0,
       P8OUT := P8OUT ?s1 @ ws\<rparr>" using ADC12ISR_frame by blast
  have e: "entry_mode (ADC12ISR iv ?s1)"
    using assms(2) unfolding ws by (simp add: entry_mode_def mask_simps)
  moreover have "lock_inv (ADC12ISR iv ?s1)"
    using assms(1) e unfolding lock_inv_def by (simp add: ws)
  ultimately show ?thesis using deliver_conversion_entry [OF assms(2)] by simp
qed

lemma entry_mode_tick:
  assumes "lock_inv s" "entry_mode s"
  shows "\<exists>s'. deliver Timer_tick s = Some s' \<and> lock_inv s' \<and> entry_mode s'"
proof -
  have e: "entry_mode (s\<lparr>TA0CCTL0 := TA0CCTL0 s OR CCIFG\<rparr>)"
    using assms(2) by (simp add: entry_mode_def mask_simps)
  moreover have "lock_inv (s\<lparr>TA0CCTL0 := TA0CCTL0 s OR CCIFG\<rparr>)"
    using assms(1) e unfolding lock_inv_def by simp
  ultimately show ?thesis using deliver_tick_entry [OF assms(2)] by simp
qed

lemma feedback_tick_count:
  assumes "lock_inv s" "feedback_mode s" "seconds s < 2"
  shows "deliver Timer_tick s = Some (s\<lparr>seconds := seconds s + 1,
            TA0CCTL0 := (TA0CCTL0 s OR CCIFG) AND NOT CCIFG\<rparr>)"
    and "lock_inv (s\<lparr>seconds := seconds s + 1, TA0CCTL0 := (TA0CCTL0 s OR CCIFG) AND NOT CCIFG\<rparr>)"
    and "feedback_mode (s\<lparr>seconds := seconds s + 1, TA0CCTL0 := (TA0CCTL0 s OR CCIFG) AND NOT CCIFG\<rparr>)"
proof -
  have le: "seconds s + 1 \<le> 2" using assms(3) by unat_arith
  show "deliver Timer_tick s = Some (s\<lparr>seconds := seconds s + 1,
            TA0CCTL0 := (TA0CCTL0 s OR CCIFG) AND NOT CCIFG\<rparr>)"
    unfolding deliver_tick_feedback [OF assms(2)] using le by (simp add: timer_count)
  show f: "feedback_mode (s\<lparr>seconds := seconds s + 1, TA0CCTL0 := (TA0CCTL0 s OR CCIFG) AND NOT CCIFG\<rparr>)"
    using assms(2) le by (simp add: feedback_mode_def mask_simps)
  show "lock_inv (s\<lparr>seconds := seconds s + 1, TA0CCTL0 := (TA0CCTL0 s OR CCIFG) AND NOT CCIFG\<rparr>)"
    using assms(1) f unfolding lock_inv_def by simp
qed

lemma feedback_tick_restart:
  assumes "lock_inv s" "feedback_mode s" "seconds s = 2"
  shows "deliver Timer_tick s = Some (restart s)"
    and "lock_inv (restart s)"
    and "entry_mode (restart s)"
proof -
  have gt: "2 < seconds s + 1" using assms(3) by simp
  show "deliver Timer_tick s = Some (restart s)"
    unfolding deliver_tick_feedback [OF assms(2)] using gt by (simp add: timer_restart restart_def)
  show e: "entry_mode (restart s)"
    using assms(2) by (auto simp add: feedback_mode_def entry_mode_def restart_def mask_simps)
  show "lock_inv (restart s)"
    using assms(1) e unfolding lock_inv_def by (simp add: restart_def)
qed

lemma feedback_seconds: "feedback_mode s \<Longrightarrow> seconds s < 2 \<or> seconds s = 2"
  unfolding feedback_mode_def by unat_arith

lemma lock_inv_tick:
  assumes "lock_inv s"
  shows "\<exists>s'. deliver Timer_tick s = Some s' \<and> lock_inv s'"
proof (cases "entry_mode s")
  case True
  then show ?thesis using entry_mode_tick [OF assms] by blast
next
  case False
  then have f: "feedback_mode s" using assms by (simp add: lock_inv_def)
  from feedback_seconds [OF f] show ?thesis
  proof
    assume "seconds s < 2"
    from feedback_tick_count(1,2) [OF assms f this] show ?thesis by blast
  next
    assume "seconds s = 2"
    from feedback_tick_restart(1,2) [OF assms f this] show ?thesis by blast
  qed
qed

lemma lock_inv_conversion:
  assumes "lock_inv s"
  shows "\<exists>s'. deliver (Conversion iv raw) s = Some s' \<and> lock_inv s'"
proof (cases "entry_mode s")
  case True
  then show ?thesis using entry_mode_conversion [OF assms] by blast
next
  case False
  then have f: "feedback_mode s" using assms by (simp add: lock_inv_def)
  show ?thesis unfolding deliver_conversion_feedback [OF f] using assms by simp
qed

lemma lock_inv_confirm:
  assumes "lock_inv s"
  shows "\<exists>s'. deliver Confirm_edge s = Some s' \<and> lock_inv s'"
proof -
  have "lock_inv (s\<lparr>pressed := 1\<rparr>)"
    using assms by (simp add: lock_inv_def entry_mode_def feedback_mode_def)
  then show ?thesis using deliver_confirm [OF assms] by simp
qed

lemma loop_fourth:
  assumes "lock_inv s" "entry_mode s" "pressed s = 1" "data_cnt s = 3"
  shows "main_loop s = Some (validated s)"
    and "lock_inv (validated s)"
    and "feedback_mode (validated s)"
proof -
  have len: "length (guess s) = 4" and pw: "password s = [1, 2, 3, 4]"
    using assms(1) by (simp_all add: lock_inv_def)
  have ca: "conversion_allowed s \<noteq> 0" and one: "correct s = 1"
    using assms(2) by (simp_all add: entry_mode_def)
  let ?s2 = "s\<lparr>guess := (guess s)[3 := ucast (sampled_digit s)], data_cnt := 4,
                conversion_allowed := 0\<rparr>"
  have "length (guess ?s2) = 4" "length (password ?s2) = 4" "correct ?s2 = 1"
    using len pw one by simp_all
  note cp = check_password_result [OF this]
  show "main_loop s = Some (validated s)"
    unfolding main_loop_fourth [OF assms(3) ca assms(4) len] cp
    by (simp add: validated_def Let_def)
  show f: "feedback_mode (validated s)"
    using assms(2) by (simp add: validated_def Let_def feedback_mode_def entry_mode_def mask_simps)
  show "lock_inv (validated s)"
    using assms(1) f unfolding lock_inv_def by (simp add: validated_def Let_def)
qed

lemma loop_accept:
  assumes "lock_inv s" "entry_mode s" "pressed s = 1" "data_cnt s < 3"
  shows "main_loop s =
           Some (s\<lparr>guess := (guess s)[unat (data_cnt s) := ucast (sampled_digit s)],
                   data_cnt := data_cnt s + 1, pressed := 0\<rparr>)"
    and "lock_inv (s\<lparr>guess := (guess s)[unat (data_cnt s) := ucast (sampled_digit s)],
                   data_cnt := data_cnt s + 1, pressed := 0\<rparr>)"
    and "entry_mode (s\<lparr>guess := (guess s)[unat (data_cnt s) := ucast (sampled_digit s)],
                   data_cnt := data_cnt s + 1, pressed := 0\<rparr>)"
proof -
  have len: "length (guess s) = 4" using assms(1) by (simp add: lock_inv_def)
  have ca: "conversion_allowed s \<noteq> 0" using assms(2) by (simp add: entry_mode_def)
  have le: "data_cnt s + 1 \<le> 3" using assms(4) by unat_arith
  show "main_loop s =
           Some (s\<lparr>guess := (guess s)[unat (data_cnt s) := ucast (sampled_digit s)],
                   data_cnt := data_cnt s + 1, pressed := 0\<rparr>)"
    by (rule main_loop_accept [OF assms(3) ca assms(4) len])
  show e: "entry_mode (s\<lparr>guess := (guess s)[unat (data_cnt s) := ucast (sampled_digit s)],
                   data_cnt := data_cnt s + 1, pressed := 0\<rparr>)"
    using assms(2) le by (simp add: entry_mode_def)
  show "lock_inv (s\<lparr>guess := (guess s)[unat (data_cnt s) := ucast (sampled_digit s)],
                   data_cnt := data_cnt s + 1, pressed := 0\<rparr>)"
    using assms(1) e unfolding lock_inv_def by simp
qed

lemma loop_discard:
  assumes "lock_inv s" "feedback_mode s" "pressed s = 1"
  shows "main_loop s = Some (s\<lparr>pressed := 0\<rparr>)"
    and "lock_inv (s\<lparr>pressed := 0\<rparr>)"
    and "feedback_mode (s\<lparr>pressed := 0\<rparr>)"
proof -
  have "conversion_allowed s = 0" "data_cnt s \<le> 3"
    using assms(2) by (simp_all add: feedback_mode_def)
  then show "main_loop s = Some (s\<lparr>pressed := 0\<rparr>)"
    by (rule main_loop_discard [OF assms(3)])
  show f: "feedback_mode (s\<lparr>pressed := 0\<rparr>)"
    using assms(2) by (simp add: feedback_mode_def)
  show "lock_inv (s\<lparr>pressed := 0\<rparr>)"
    using assms(1) f unfolding lock_inv_def by simp
qed

lemma entry_data_cnt: "entry_mode s \<Longrightarrow> data_cnt s < 3 \<or> data_cnt s = 3"
  unfolding entry_mode_def by unat_arith

lemma lock_inv_loop:
  assumes "lock_inv s"
  shows "\<exists>s'. deliver Loop_pass s = Some s' \<and> lock_inv s'"
proof (cases "pressed s = 1")
  case False
  then show ?thesis using assms by (simp add: main_loop_idle)
next
  case p: True
  show ?thesis
  proof (cases "entry_mode s")
    case e: True
    from entry_data_cnt [OF e] show ?thesis
    proof
      assume "data_cnt s < 3"
      from loop_accept(1,2) [OF assms e p this] show ?thesis by simp
    next
      assume "data_cnt s = 3"
      from loop_fourth(1,2) [OF assms e p this] show ?thesis by simp
    qed
  next
    case False
    then have f: "feedback_mode s" using assms by (simp add: lock_inv_def)
    from loop_discard(1,2) [OF assms f p] show ?thesis by simp
  qed
qed

lemma lock_inv_deliver:
  assumes "lock_inv s"
  shows "\<exists>s'. deliver e s = Some s' \<and> lock_inv s'"
proof (cases e)
  case Confirm_edge
  then show ?thesis using lock_inv_confirm [OF assms] by simp
next
  case (Conversion iv raw)
  then show ?thesis using lock_inv_conversion [OF assms] by simp
next
  case Timer_tick
  then show ?thesis using lock_inv_tick [OF assms] by simp
next
  case Loop_pass
  then show ?thesis using lock_inv_loop [OF assms] by simp
qed

lemma lock_inv_run:
  "lock_inv s \<Longrightarrow> \<exists>s'. run es s = Some s' \<and> lock_inv s'"
proof (induction es arbitrary: s)
  case Nil
  then show ?case by simp
next
  case (Cons e es)
  from lock_inv_deliver [OF Cons.prems] obtain s1 where
    s1: "deliver e s = Some s1" "lock_inv s1" by blast
  from Cons.IH [OF s1(2)] show ?case using s1(1) by simp
qed

lemma reachable_inv: "run es (initial r) = Some s \<Longrightarrow> lock_inv s"
  using lock_inv_run [OF lock_inv_initial, of es r] by simp

lemma run_append:
  "run (es @ fs) s = (case run es s of None \<Rightarrow> None | Some s' \<Rightarrow> run fs s')"
  by (induction es arbitrary: s) (auto split: option.splits)

subsection \<open>The gate and the success indicator\<close>

lemma gate_turn_on_led:
  "conversion_allowed (turn_on_led s) = conversion_allowed s"
proof -
  consider "correct s = 0" | "correct s = 1" | "correct s \<noteq> 0" "correct s \<noteq> 1" by blast
  then show ?thesis
  proof cases
    case 1
    then show ?thesis by (simp add: turn_on_led_wrong)
  next
    case 2
    then show ?thesis by (simp add: turn_on_led_right)
  next
    case 3
    then show ?thesis by (simp add: turn_on_led_def Let_def)
  qed
qed

lemma check_password_unfold:
  "check_password s =
     turn_on_led (fst (password_loop 0
       (s\<lparr>ADC12CTL0 := ADC12CTL0 s AND NOT ADC12ENC, ADC12IE := ADC12IE s AND NOT ADC12IE0,
          TA0CCR0 := 0, TA0CTL := MC__STOP, data_cnt := 0\<rparr>) 0))"
  by (simp add: check_password_def check_password_probe_def Let_def split: prod.splits)

lemma check_password_never_sets:
  "correct (check_password s) = correct s \<or> correct (check_password s) = 0"
proof -
  let ?s = "s\<lparr>ADC12CTL0 := ADC12CTL0 s AND NOT ADC12ENC, ADC12IE := ADC12IE s AND NOT ADC12IE0,
          TA0CCR0 := 0, TA0CTL := MC__STOP, data_cnt := 0\<rparr>"
  from password_loop_state [of 0 ?s 0] show ?thesis
    unfolding check_password_unfold by (auto simp add: correct_turn_on_led)
qed

lemma gate_check_password:
  "conversion_allowed (check_password s) = conversion_allowed s"
proof -
  let ?s = "s\<lparr>ADC12CTL0 := ADC12CTL0 s AND NOT ADC12ENC, ADC12IE := ADC12IE s AND NOT ADC12IE0,
          TA0CCR0 := 0, TA0CTL := MC__STOP, data_cnt := 0\<rparr>"
  from password_loop_state [of 0 ?s 0] show ?thesis
    unfolding check_password_unfold by (auto simp add: gate_turn_on_led)
qed

lemma gate_inv_loop:
  assumes inv: "conversion_allowed s \<noteq> 0 \<longrightarrow> correct s = 1" and ml: "main_loop s = Some s'"
  shows "conversion_allowed s' \<noteq> 0 \<longrightarrow> correct s' = 1"
proof (cases "pressed s = 1")
  case False
  then have "s' = s" using ml by (simp add: main_loop_def)
  then show ?thesis using inv by simp
next
  case p: True
  define s1 where "s1 = (if conversion_allowed s \<noteq> 0
      then s\<lparr>guess := (guess s)[unat (data_cnt s) := ucast (sampled_digit s)],
             data_cnt := data_cnt s + 1\<rparr> else s)"
  have s1: "conversion_allowed s1 = conversion_allowed s" "correct s1 = correct s"
    by (simp_all add: s1_def)
  have res: "s' = (if 3 < data_cnt s1 then check_password (s1\<lparr>conversion_allowed := 0\<rparr>)
                   else s1)\<lparr>pressed := 0\<rparr>"
  proof (cases "conversion_allowed s \<noteq> 0")
    case True
    show ?thesis
    proof (cases "unat (data_cnt s) < length (guess s)")
      case inside: True
      show ?thesis using ml p True inside unfolding main_loop_def s1_def
        by (auto simp add: Let_def)
    next
      case False
      then have "main_loop s = None" using p True unfolding main_loop_def by simp
      then show ?thesis using ml by simp
    qed
  next
    case False
    then show ?thesis using ml p unfolding main_loop_def s1_def by (auto simp add: Let_def)
  qed
  show ?thesis
  proof (cases "3 < data_cnt s1")
    case True
    then have "conversion_allowed s' = 0"
      unfolding res by (simp add: gate_check_password)
    then show ?thesis by simp
  next
    case False
    then have "conversion_allowed s' = conversion_allowed s" "correct s' = correct s"
      unfolding res using s1 by simp_all
    then show ?thesis using inv by simp
  qed
qed

lemma gate_inv_timer:
  assumes "conversion_allowed s \<noteq> 0 \<longrightarrow> correct s = 1"
  shows "conversion_allowed (Timer_A_CCR0_ISR s) \<noteq> 0 \<longrightarrow> correct (Timer_A_CCR0_ISR s) = 1"
proof (cases "2 < seconds s + 1")
  case True
  then show ?thesis by (simp add: timer_restart)
next
  case False
  then have "seconds s + 1 \<le> 2" by (simp add: not_less)
  then show ?thesis using assms by (simp add: timer_count)
qed

lemma gate_inv_adc:
  assumes "conversion_allowed s \<noteq> 0 \<longrightarrow> correct s = 1"
  shows "conversion_allowed (ADC12ISR iv s) \<noteq> 0 \<longrightarrow> correct (ADC12ISR iv s) = 1"
proof -
  from ADC12ISR_frame [of iv s] obtain ws where
    "ADC12ISR iv s = s\<lparr>P4OUT := P4OUT s XOR BIT5, ADC12IFG := ADC12IFG s AND NOT ADC12IFG0,
       P8OUT := P8OUT s @ ws\<rparr>" by blast
  then show ?thesis using assms by simp
qed

lemma gate_inv_deliver:
  assumes "conversion_allowed s \<noteq> 0 \<longrightarrow> correct s = 1" "deliver e s = Some s'"
  shows "conversion_allowed s' \<noteq> 0 \<longrightarrow> correct s' = 1"
proof (cases e)
  case Confirm_edge
  then show ?thesis using assms by (auto simp add: Input_Latch_def split: if_splits)
next
  case (Conversion iv raw)
  let ?s1 = "s\<lparr>ADC12MEM0 := raw, ADC12IFG := ADC12IFG s OR ADC12IFG0\<rparr>"
  have "conversion_allowed ?s1 \<noteq> 0 \<longrightarrow> correct ?s1 = 1" using assms(1) by simp
  from gate_inv_adc [OF this, of iv] show ?thesis
    using assms Conversion by (auto simp add: Let_def split: if_splits)
next
  case Timer_tick
  let ?s1 = "s\<lparr>TA0CCTL0 := TA0CCTL0 s OR CCIFG\<rparr>"
  have "conversion_allowed ?s1 \<noteq> 0 \<longrightarrow> correct ?s1 = 1" using assms(1) by simp
  from gate_inv_timer [OF this] show ?thesis
    using assms Timer_tick by (auto simp add: Let_def split: if_splits)
next
  case Loop_pass
  then have "main_loop s = Some s'" using assms(2) by simp
  then show ?thesis by (rule gate_inv_loop [OF assms(1)])
qed

subsection \<open>Who writes the confirmation flag\<close>

lemma pressed_conversion:
  assumes "lock_inv s"
  shows "\<exists>s'. deliver (Conversion iv raw) s = Some s' \<and> pressed s' = pressed s"
proof (cases "entry_mode s")
  case True
  let ?s1 = "s\<lparr>ADC12MEM0 := raw, ADC12IFG := ADC12IFG s OR ADC12IFG0\<rparr>"
  from ADC12ISR_frame [of iv ?s1] obtain ws where
    "ADC12ISR iv ?s1 = ?s1\<lparr>P4OUT := P4OUT ?s1 XOR BIT5,
       ADC12IFG := ADC12IFG ?s1 AND NOT ADC12IFG0, P8OUT := P8OUT ?s1 @ ws\<rparr>" by blast
  then have "pressed (ADC12ISR iv ?s1) = pressed s" by simp
  then show ?thesis unfolding deliver_conversion_entry [OF True] by simp
next
  case False
  then have "feedback_mode s" using assms by (simp add: lock_inv_def)
  then show ?thesis unfolding deliver_conversion_feedback [OF \<open>feedback_mode s\<close>] by simp
qed

lemma pressed_tick:
  assumes "lock_inv s"
  shows "\<exists>s'. deliver Timer_tick s = Some s' \<and> pressed s' = pressed s"
proof (cases "entry_mode s")
  case True
  show ?thesis unfolding deliver_tick_entry [OF True] by simp
next
  case False
  then have f: "feedback_mode s" using assms by (simp add: lock_inv_def)
  from feedback_seconds [OF f] show ?thesis
  proof
    assume "seconds s < 2"
    from feedback_tick_count(1) [OF assms f this] show ?thesis by simp
  next
    assume "seconds s = 2"
    from feedback_tick_restart(1) [OF assms f this] show ?thesis by (simp add: restart_def)
  qed
qed

lemma pressed_loop:
  assumes "lock_inv s"
  shows "\<exists>s'. deliver Loop_pass s = Some s' \<and> pressed s' = 0"
proof (cases "pressed s = 1")
  case False
  then have "pressed s = 0" using assms by (simp add: lock_inv_def)
  then show ?thesis using False by (simp add: main_loop_idle)
next
  case p: True
  show ?thesis
  proof (cases "entry_mode s")
    case e: True
    from entry_data_cnt [OF e] show ?thesis
    proof
      assume "data_cnt s < 3"
      from loop_accept(1) [OF assms e p this] show ?thesis by simp
    next
      assume "data_cnt s = 3"
      from loop_fourth(1) [OF assms e p this] show ?thesis by (simp add: validated_def Let_def)
    qed
  next
    case False
    then have f: "feedback_mode s" using assms by (simp add: lock_inv_def)
    from loop_discard(1) [OF assms f p] show ?thesis by simp
  qed
qed

subsection \<open>What the display shows\<close>

lemma read_unlocked:
  "lcd_read unlocked_writes = Command 0x01 # Command 0x84 # characters ''UNLOCKED''"
  by code_simp

lemma read_wrong:
  "lcd_read wrong_writes =
     Command 0x01 # Command 0x85 # characters ''WRONG'' @ Command 0xC4 # characters ''PASSWORD''"
  by code_simp

lemma read_entry_screen:
  "lcd_read (lcd_out (lcd_command 0x01) @ begin_writes) =
     Command 0x01 # Command 0x80 # characters ''0000'' @
     Command 0xC1 # characters ''Enter PW'' @ [Command 0x80]"
  by code_simp

lemma unlocked_trace:
  "P8OUT (lcd_text ''UNLOCKED'' 0x84 (lcd_command 0x01 s)) = P8OUT s @ unlocked_writes"
  by (simp add: lcd_text_out lcd_command_out [of _ s] unlocked_writes_def)

lemma wrong_trace:
  "P8OUT (lcd_text ''PASSWORD'' 0xC4 (lcd_text ''WRONG'' 0x85 (lcd_command 0x01 s))) =
     P8OUT s @ wrong_writes"
  by (simp add: lcd_text_out lcd_command_out [of _ s] wrong_writes_def)

lemma entry_screen_trace:
  "P8OUT (lcd_begin (lcd_command 0x01 s)) = P8OUT s @ lcd_out (lcd_command 0x01) @ begin_writes"
  by (simp add: lcd_begin_out lcd_command_out [of _ s])

text \<open>Scenario A ends with the success indicator lit and \<open>UNLOCKED\<close> on the display.\<close>

lemma scenario_A_unlocks:
  "map_option guess (run scenario_A (initial zero_regs)) = Some [1, 2, 3, 4] \<and>
   map_option correct (run scenario_A (initial zero_regs)) = Some 1 \<and>
   map_option conversion_allowed (run scenario_A (initial zero_regs)) = Some 0 \<and>
   map_option (\<lambda>s. P4OUT s AND (BIT3 OR BIT4)) (run scenario_A (initial zero_regs)) = Some BIT3"
  by code_simp

subsection \<open>Inside the feedback window\<close>

lemma window_event:
  assumes "lock_inv s" "feedback_mode s" "e \<noteq> Timer_tick"
  shows "\<exists>s'. deliver e s = Some s' \<and> lock_inv s' \<and> feedback_mode s' \<and>
           seconds s' = seconds s \<and> P4OUT s' = P4OUT s \<and> P8OUT s' = P8OUT s \<and>
           correct s' = correct s \<and> guess s' = guess s"
proof (cases e)
  case Confirm_edge
  have "lock_inv (s\<lparr>pressed := 1\<rparr>)" "feedback_mode (s\<lparr>pressed := 1\<rparr>)"
    using assms(1,2) by (simp_all add: lock_inv_def entry_mode_def feedback_mode_def)
  then show ?thesis unfolding Confirm_edge deliver_confirm [OF assms(1)] by simp
next
  case (Conversion iv raw)
  show ?thesis unfolding Conversion deliver_conversion_feedback [OF assms(2)]
    using assms(1,2) by simp
next
  case Timer_tick
  then show ?thesis using assms(3) by simp
next
  case Loop_pass
  show ?thesis
  proof (cases "pressed s = 1")
    case True
    from loop_discard [OF assms(1,2) True] show ?thesis unfolding Loop_pass by simp
  next
    case False
    then show ?thesis unfolding Loop_pass using assms(1,2) by (simp add: main_loop_idle)
  qed
qed

lemma window_tick:
  assumes "lock_inv s" "feedback_mode s" "unat (seconds s) < 2"
  shows "\<exists>s'. deliver Timer_tick s = Some s' \<and> lock_inv s' \<and> feedback_mode s' \<and>
           unat (seconds s') = Suc (unat (seconds s)) \<and> P4OUT s' = P4OUT s \<and>
           P8OUT s' = P8OUT s \<and> correct s' = correct s \<and> guess s' = guess s"
proof -
  have lt: "seconds s < 2" using assms(3) by unat_arith
  then have "seconds s = 0 \<or> seconds s = 1" by unat_arith
  then have "unat (seconds s + 1) = Suc (unat (seconds s))" by auto
  then show ?thesis using feedback_tick_count [OF assms(1,2) lt] by simp
qed

lemma window_run:
  "lock_inv s \<Longrightarrow> feedback_mode s \<Longrightarrow> unat (seconds s) + ticks es < 3 \<Longrightarrow>
   \<exists>s'. run es s = Some s' \<and> lock_inv s' \<and> feedback_mode s' \<and>
        unat (seconds s') = unat (seconds s) + ticks es \<and> P4OUT s' = P4OUT s \<and>
        P8OUT s' = P8OUT s \<and> correct s' = correct s \<and> guess s' = guess s"
proof (induction es arbitrary: s)
  case Nil
  then show ?case by simp
next
  case (Cons e es)
  show ?case
  proof (cases "e = Timer_tick")
    case True
    then have small: "unat (seconds s) < 2" using Cons.prems(3) by simp
    from window_tick [OF Cons.prems(1,2) small] obtain s1 where
      s1: "deliver Timer_tick s = Some s1" "lock_inv s1" "feedback_mode s1"
          "unat (seconds s1) = Suc (unat (seconds s))" "P4OUT s1 = P4OUT s"
          "P8OUT s1 = P8OUT s" "correct s1 = correct s" "guess s1 = guess s" by blast
    have "unat (seconds s1) + ticks es < 3" using s1(4) Cons.prems(3) True by simp
    from Cons.IH [OF s1(2,3) this] show ?thesis using s1 True by (auto simp del: deliver.simps)
  next
    case False
    from window_event [OF Cons.prems(1,2) False] obtain s1 where
      s1: "deliver e s = Some s1" "lock_inv s1" "feedback_mode s1"
          "seconds s1 = seconds s" "P4OUT s1 = P4OUT s"
          "P8OUT s1 = P8OUT s" "correct s1 = correct s" "guess s1 = guess s" by blast
    have "unat (seconds s1) + ticks es < 3" using s1(4) Cons.prems(3) False by simp
    from Cons.IH [OF s1(2,3) this] show ?thesis using s1 False by (auto simp del: deliver.simps)
  qed
qed

lemma fourth_confirmation:
  assumes "run es0 (initial r) = Some s" "pressed s = 1" "conversion_allowed s \<noteq> 0"
    "data_cnt s = 3"
  shows "lock_inv s" "entry_mode s" "main_loop s = Some (validated s)"
    "lock_inv (validated s)" "feedback_mode (validated s)" "seconds (validated s) = 0"
proof -
  show inv: "lock_inv s" using assms(1) by (rule reachable_inv)
  show e: "entry_mode s"
    using inv assms(3) by (auto simp add: lock_inv_def feedback_mode_def)
  show "main_loop s = Some (validated s)" "lock_inv (validated s)" "feedback_mode (validated s)"
    by (rule loop_fourth [OF inv e assms(2,4)])+
  show "seconds (validated s) = 0"
    using e by (simp add: validated_def Let_def entry_mode_def)
qed

lemma seconds_two: "unat (x :: 8 word) = 2 \<Longrightarrow> x = 2"
  by (simp add: word_unat_eq_iff)

section \<open>The claims\<close>

subsection \<open>C1: validation\<close>

text \<open>
  C1. For a secret and a guess of length 4, \<^verbatim>\<open>check_password\<close> entered with
  \<open>correct = 1\<close> (which holds at every validation, see C9) leaves \<open>correct = 1\<close>
  (Success) exactly when the guess equals the secret element by element, and
  \<open>correct = 0\<close> (Failure) otherwise. The loop compares in index order and stops at the
  first mismatch: with the first mismatch at index \<open>k\<close> it makes exactly \<open>k + 1\<close>
  comparisons, and 4 when there is none.
\<close>

theorem check_password_validates:
  assumes len: "length (guess s) = 4" "length (password s) = 4" and one: "correct s = 1"
  shows "(correct (check_password s) = 1 \<longleftrightarrow> guess s = password s) \<and>
         (correct (check_password s) = 0 \<longleftrightarrow> guess s \<noteq> password s) \<and>
         (guess s = password s \<longrightarrow> comparisons s = 4) \<and>
         (\<forall>k<4. (\<forall>j<k. guess s ! j = password s ! j) \<and> guess s ! k \<noteq> password s ! k
                  \<longrightarrow> comparisons s = k + 1)"
proof (cases "\<forall>i<4. guess s ! i = password s ! i")
  case True
  then have eq: "guess s = password s" using len by (simp add: lists4_eq)
  have "check_password s = fst (check_password_probe s)" by (simp add: check_password_def)
  then have "correct (check_password s) = 1" and "comparisons s = 4"
    using check_password_probe_match [OF True] one
    by (simp_all add: correct_turn_on_led comparisons_def)
  then show ?thesis using eq True by auto
next
  case False
  then have neq: "guess s \<noteq> password s" using len by (simp add: lists4_eq)
  have cnt: "comparisons s = k + 1" and zero: "correct (check_password s) = 0"
    if "k < 4" "\<forall>j<k. guess s ! j = password s ! j" "guess s ! k \<noteq> password s ! k" for k
    using check_password_probe_mismatch [OF that]
    by (simp_all add: correct_turn_on_led comparisons_def check_password_def)
  from first_mismatch [OF False] obtain k0 where
    "k0 < 4" "\<forall>j<k0. guess s ! j = password s ! j" "guess s ! k0 \<noteq> password s ! k0" by blast
  then have "correct (check_password s) = 0" by (rule zero)
  then show ?thesis using neq cnt by auto
qed

text \<open>Scenario B: the mismatch is at index 2 and exactly 3 comparisons are made.\<close>

theorem check_password_validates_witness:
  "length (guess scenario_B_state) = 4 \<and> length (password scenario_B_state) = 4 \<and>
   correct scenario_B_state = 1 \<and> guess scenario_B_state \<noteq> password scenario_B_state \<and>
   correct (check_password scenario_B_state) = 0 \<and> comparisons scenario_B_state = 3"
proof -
  have h1: "length (guess scenario_B_state) = 4" 
    and h2: "length (password scenario_B_state) = 4"
    and h3: "correct scenario_B_state = 1"
    and h4: "guess scenario_B_state \<noteq> password scenario_B_state"
    by (simp_all add: scenario_B_state_def startup_def zero_regs_def)
  have pre: "\<forall>j<2. guess scenario_B_state ! j = password scenario_B_state ! j"
    by (simp add: scenario_B_state_def startup_def zero_regs_def less_Suc_eq numeral_2_eq_2)
  have mis: "guess scenario_B_state ! 2 \<noteq> password scenario_B_state ! 2"
    by (simp add: scenario_B_state_def startup_def zero_regs_def)
  note T = check_password_validates [OF h1 h2 h3]
  from T h4 have zero: "correct (check_password scenario_B_state) = 0" by blast
  from T have "\<forall>k<4. (\<forall>j<k. guess scenario_B_state ! j = password scenario_B_state ! j) \<and>
      guess scenario_B_state ! k \<noteq> password scenario_B_state ! k
      \<longrightarrow> comparisons scenario_B_state = k + 1" by blast
  from this [rule_format, of 2] pre mis have "comparisons scenario_B_state = 3" by simp
  with zero have "correct (check_password scenario_B_state) = 0 \<and> comparisons scenario_B_state = 3"
    by simp
  then show ?thesis using h1 h2 h3 h4 by simp
qed

subsection \<open>C2: the confirmation flag\<close>

text \<open>
  C2. In every state the program reaches the interrupt of P2.4 is enabled for the
  falling edge, so an edge on the confirm input calls the handler, which sets
  \<open>pressed\<close> to 1 and changes nothing else. The converter's routine and the timer's
  routine leave \<open>pressed\<close> as it is, and a pass of the main loop leaves it 0: only the
  latch sets the flag and only the main loop clears it. A second edge before the main
  loop has consumed the first gives the same state as one edge, so after two edges one
  pass commits one digit and the next pass finds nothing pending.
\<close>

theorem confirm_flag_latch:
  assumes "run es (initial r) = Some s"
  shows "P2IE s AND BIT4 \<noteq> 0 \<and> P2IES s AND BIT4 \<noteq> 0 \<and>
         deliver Confirm_edge s = Some (s\<lparr>pressed := 1\<rparr>) \<and>
         (\<exists>s'. deliver (Conversion iv raw) s = Some s' \<and> pressed s' = pressed s) \<and>
         (\<exists>s'. deliver Timer_tick s = Some s' \<and> pressed s' = pressed s) \<and>
         (\<exists>s'. deliver Loop_pass s = Some s' \<and> pressed s' = 0) \<and>
         run [Confirm_edge, Confirm_edge] s = run [Confirm_edge] s \<and>
         run [Confirm_edge, Confirm_edge, Loop_pass, Loop_pass] s = run [Confirm_edge, Loop_pass] s"
proof -
  have inv: "lock_inv s" using assms by (rule reachable_inv)
  have en: "P2IE s AND BIT4 \<noteq> 0" "P2IES s AND BIT4 \<noteq> 0"
    using inv by (simp_all add: lock_inv_def)
  have d: "deliver Confirm_edge s = Some (s\<lparr>pressed := 1\<rparr>)"
    by (rule deliver_confirm [OF inv])
  from lock_inv_confirm [OF inv] d have inv1: "lock_inv (s\<lparr>pressed := 1\<rparr>)" by simp
  have d2: "deliver Confirm_edge (s\<lparr>pressed := 1\<rparr>) = Some (s\<lparr>pressed := 1\<rparr>)"
    using deliver_confirm [OF inv1] by simp
  have twice: "run [Confirm_edge, Confirm_edge] s = run [Confirm_edge] s"
    using d d2 by (simp del: deliver.simps)
  from pressed_loop [OF inv1] obtain s2 where
    s2: "deliver Loop_pass (s\<lparr>pressed := 1\<rparr>) = Some s2" "pressed s2 = 0" by blast
  have idle: "deliver Loop_pass s2 = Some s2" using s2(2) by (simp add: main_loop_idle)
  have queue: "run [Confirm_edge, Confirm_edge, Loop_pass, Loop_pass] s =
               run [Confirm_edge, Loop_pass] s"
    using d d2 s2(1) idle by (simp del: deliver.simps)
  show ?thesis
    using en d pressed_conversion [OF inv, of iv raw] pressed_tick [OF inv] pressed_loop [OF inv]
      twice queue by blast
qed

text \<open>
  Scenario D from the initial state: two edges, then two passes of the main loop,
  commit one digit only.
\<close>

theorem confirm_flag_latch_witness:
  "run [] (initial zero_regs) = Some (initial zero_regs) \<and>
   map_option pressed (deliver Confirm_edge (initial zero_regs)) = Some 1 \<and>
   map_option data_cnt (run [Confirm_edge, Confirm_edge, Loop_pass, Loop_pass] (initial zero_regs))
     = Some 1"
proof -
  have h: "run [] (initial zero_regs) = Some (initial zero_regs)" by simp
  note T = confirm_flag_latch [OF h, of 6 0]
  from T have a: "deliver Confirm_edge (initial zero_regs) = Some ((initial zero_regs)\<lparr>pressed := 1\<rparr>)"
    by blast
  from T have b: "run [Confirm_edge, Confirm_edge, Loop_pass, Loop_pass] (initial zero_regs) =
      run [Confirm_edge, Loop_pass] (initial zero_regs)" by blast
  have c: "map_option data_cnt (run [Confirm_edge, Loop_pass] (initial zero_regs)) = Some 1"
    by code_simp
  show ?thesis unfolding a b using h c by simp
qed

subsection \<open>C3: the digit that is stored is not clamped\<close>

text \<open>
  C3. The digit is the high nibble of the 12-bit conversion result. On the way to the
  display \<^verbatim>\<open>lcd_display\<close> limits the character to \<open>9\<close>, as its comment says
  (digits are limited to number 9). On the way into \<open>guess\<close> nothing limits it: with
  the conversion result 0x0D00 the display is sent the character \<open>9\<close> (0x39) at the
  first position, and the confirmation stores 13.
\<close>

theorem stored_digit_not_clamped:
  "map_option (\<lambda>s. lcd_read (drop (length (P8OUT (initial zero_regs))) (P8OUT s)))
     (run [Conversion 6 0x0D00] (initial zero_regs)) = Some [Command 0x80, Character 0x39] \<and>
   map_option sampled_digit (run [Conversion 6 0x0D00] (initial zero_regs)) = Some 13 \<and>
   map_option guess (run (enter 0x0D00) (initial zero_regs)) = Some [13, 0, 0, 0]"
  by code_simp

subsection \<open>C4: the state when the feedback window ends\<close>

text \<open>
  C4 as stated fails for the guess: nothing in the program clears \<open>guess\<close>. After
  scenario B and the three ticks of its feedback window the controller is back in entry
  mode and \<open>guess\<close> still holds 1 2 9 4.
\<close>

theorem guess_not_cleared:
  "map_option conversion_allowed (run (window_B @ [Timer_tick]) (initial zero_regs)) = Some 1 \<and>
   map_option data_cnt (run (window_B @ [Timer_tick]) (initial zero_regs)) = Some 0 \<and>
   map_option guess (run (window_B @ [Timer_tick]) (initial zero_regs)) = Some [1, 2, 9, 4] \<and>
   map_option guess (run (window_B @ [Timer_tick]) (initial zero_regs)) \<noteq> Some [0, 0, 0, 0]"
  by code_simp

text \<open>
  C4, amended. When the tick that ends the feedback window is served (the gate is closed
  and \<open>seconds\<close> is 2), the state after it has \<open>data_cnt = 0\<close>, \<open>correct = 1\<close>,
  \<open>conversion_allowed = 1\<close> and \<open>seconds = 0\<close>, as after initialisation, and the
  controller is in entry mode. \<open>guess\<close> is not cleared: it keeps the four digits that
  were validated.
\<close>

theorem window_end_state:
  assumes "run es (initial r) = Some s" and "conversion_allowed s = 0" and "seconds s = 2"
  shows "\<exists>s'. deliver Timer_tick s = Some s' \<and> data_cnt s' = 0 \<and> correct s' = 1 \<and>
           conversion_allowed s' = 1 \<and> seconds s' = 0 \<and> entry_mode s' \<and>
           guess s' = guess s"
proof -
  have inv: "lock_inv s" using assms(1) by (rule reachable_inv)
  then have f: "feedback_mode s"
    using assms(2) by (auto simp add: lock_inv_def entry_mode_def)
  then have zero: "data_cnt s = 0" by (simp add: feedback_mode_def)
  note t = feedback_tick_restart [OF inv f assms(3)]
  have "data_cnt (restart s) = 0" "correct (restart s) = 1" "conversion_allowed (restart s) = 1"
    "seconds (restart s) = 0" "guess (restart s) = guess s"
    using zero by (simp_all add: restart_def)
  then show ?thesis using t(1,3) by blast
qed

text \<open>Scenario B followed by two ticks: the third tick ends the window.\<close>

theorem window_end_state_witness:
  "run window_B (initial zero_regs) = Some (the (run window_B (initial zero_regs))) \<and>
   conversion_allowed (the (run window_B (initial zero_regs))) = 0 \<and>
   seconds (the (run window_B (initial zero_regs))) = 2 \<and>
   guess (the (run window_B (initial zero_regs))) = [1, 2, 9, 4] \<and>
   map_option guess (deliver Timer_tick (the (run window_B (initial zero_regs))))
     = Some [1, 2, 9, 4] \<and>
   map_option data_cnt (deliver Timer_tick (the (run window_B (initial zero_regs)))) = Some 0"
proof -
  let ?a = "the (run window_B (initial zero_regs))"
  have h1: "run window_B (initial zero_regs) = Some ?a" by code_simp
  have h2: "conversion_allowed ?a = 0" by code_simp
  have h3: "seconds ?a = 2" by code_simp
  have g: "guess ?a = [1, 2, 9, 4]" by code_simp
  from window_end_state [OF h1 h2 h3] obtain s' where
    "deliver Timer_tick ?a = Some s'" "data_cnt s' = 0" "guess s' = guess ?a" by blast
  then show ?thesis using h1 h2 h3 g by (simp del: deliver.simps)
qed

subsection \<open>C5: consuming a confirmation\<close>

text \<open>
  C5 as stated fails on the fourth confirmation: with \<open>data_cnt = 3\<close> and the gate
  open, the pass that consumes the confirmation stores the digit, counts to 4, and
  then validates in the same pass, and \<^verbatim>\<open>check_password\<close> sets \<open>data_cnt\<close> back to
  0. After the pass the index is 0, not 4.
\<close>

theorem fourth_confirmation_resets_index:
  "map_option pressed (run three_entered (initial zero_regs)) = Some 1 \<and>
   map_option conversion_allowed (run three_entered (initial zero_regs)) = Some 1 \<and>
   map_option data_cnt (run three_entered (initial zero_regs)) = Some 3 \<and>
   map_option data_cnt (run (three_entered @ [Loop_pass]) (initial zero_regs)) = Some 0"
  by code_simp

text \<open>
  C5, amended. In every state the program reaches with a confirmation pending, the pass
  of the main loop stays inside the array and clears \<open>pressed\<close>. With the gate open it
  writes exactly the slot \<open>guess[data_cnt]\<close> with the sampled digit; the index then is
  one more than before when it was below 3, and 0 when it was 3 (the fourth digit, which
  is validated in the same pass). With the gate closed the confirmation is discarded:
  \<open>guess\<close> and \<open>data_cnt\<close> are unchanged.
\<close>

theorem confirmation_consumed:
  assumes "run es (initial r) = Some s" and "pressed s = 1"
  shows "\<exists>s'. main_loop s = Some s' \<and> pressed s' = 0 \<and>
           (conversion_allowed s \<noteq> 0 \<longrightarrow>
              unat (data_cnt s) < 4 \<and>
              guess s' = (guess s)[unat (data_cnt s) := ucast (sampled_digit s)] \<and>
              (data_cnt s \<noteq> 3 \<longrightarrow> unat (data_cnt s') = unat (data_cnt s) + 1) \<and>
              (data_cnt s = 3 \<longrightarrow> data_cnt s' = 0)) \<and>
           (conversion_allowed s = 0 \<longrightarrow> guess s' = guess s \<and> data_cnt s' = data_cnt s)"
proof -
  have inv: "lock_inv s" using assms(1) by (rule reachable_inv)
  show ?thesis
  proof (cases "entry_mode s")
    case e: True
    then have ca: "conversion_allowed s \<noteq> 0" by (simp add: entry_mode_def)
    from entry_data_cnt [OF e] show ?thesis
    proof
      assume lt: "data_cnt s < 3"
      then have small: "data_cnt s = 0 \<or> data_cnt s = 1 \<or> data_cnt s = 2" by unat_arith
      then have "unat (data_cnt s) < 4" "data_cnt s \<noteq> 3"
        "unat (data_cnt s + 1) = unat (data_cnt s) + 1" by auto
      then show ?thesis using loop_accept(1) [OF inv e assms(2) lt] ca by simp
    next
      assume eq: "data_cnt s = 3"
      show ?thesis using loop_fourth(1) [OF inv e assms(2) eq] ca eq
        by (simp add: validated_def Let_def)
    qed
  next
    case False
    then have f: "feedback_mode s" using inv by (simp add: lock_inv_def)
    then have "conversion_allowed s = 0" by (simp add: feedback_mode_def)
    then show ?thesis using loop_discard(1) [OF inv f assms(2)] by simp
  qed
qed

text \<open>The first confirmation of a cycle, with the digit 5 sampled.\<close>

theorem confirmation_consumed_witness:
  "run [Conversion 6 0x0500, Confirm_edge] (initial zero_regs) =
     Some (the (run [Conversion 6 0x0500, Confirm_edge] (initial zero_regs))) \<and>
   pressed (the (run [Conversion 6 0x0500, Confirm_edge] (initial zero_regs))) = 1 \<and>
   conversion_allowed (the (run [Conversion 6 0x0500, Confirm_edge] (initial zero_regs))) \<noteq> 0 \<and>
   map_option guess (main_loop (the (run [Conversion 6 0x0500, Confirm_edge] (initial zero_regs))))
     = Some [5, 0, 0, 0] \<and>
   map_option data_cnt (main_loop (the (run [Conversion 6 0x0500, Confirm_edge] (initial zero_regs))))
     = Some 1"
proof -
  let ?a = "the (run [Conversion 6 0x0500, Confirm_edge] (initial zero_regs))"
  have h1: "run [Conversion 6 0x0500, Confirm_edge] (initial zero_regs) = Some ?a" by code_simp
  have h2: "pressed ?a = 1" by code_simp
  have h3: "conversion_allowed ?a \<noteq> 0" by code_simp
  have g: "(guess ?a)[unat (data_cnt ?a) := ucast (sampled_digit ?a)] = [5, 0, 0, 0]" by code_simp
  have d: "data_cnt ?a \<noteq> 3" "unat (data_cnt ?a) + 1 = 1" by code_simp+
  from confirmation_consumed [OF h1 h2] h3 obtain s' where
    s': "main_loop ?a = Some s'"
        "guess s' = (guess ?a)[unat (data_cnt ?a) := ucast (sampled_digit ?a)]"
        "data_cnt ?a \<noteq> 3 \<longrightarrow> unat (data_cnt s') = unat (data_cnt ?a) + 1" by blast
  from s'(3) d have "unat (data_cnt s') = 1" by simp
  then have "data_cnt s' = 1" by (simp add: word_unat_eq_iff)
  then show ?thesis using h1 h2 h3 s'(1,2) g by simp
qed

subsection \<open>C6: the gate stays closed for the whole feedback window\<close>

text \<open>
  C6. The pass of the main loop that consumes the fourth accepted confirmation sets
  \<open>conversion_allowed\<close> to 0. From there, whatever happens (edges on the button,
  conversions, passes of the main loop, timer ticks, in any order), the gate is still 0
  as long as fewer than three ticks have come, and the third tick sets it to 1.
\<close>

theorem gate_closed_for_window:
  assumes "run es0 (initial r) = Some s" and "pressed s = 1"
    and "conversion_allowed s \<noteq> 0" and "data_cnt s = 3"
  shows "\<exists>s1. main_loop s = Some s1 \<and> conversion_allowed s1 = 0 \<and>
           (\<forall>es. ticks es < 3 \<longrightarrow> (\<exists>s2. run es s1 = Some s2 \<and> conversion_allowed s2 = 0)) \<and>
           (\<forall>es. ticks es = 2 \<longrightarrow>
              (\<exists>s3. run (es @ [Timer_tick]) s1 = Some s3 \<and> conversion_allowed s3 = 1))"
proof -
  note f = fourth_confirmation [OF assms]
  have closed: "conversion_allowed (validated s) = 0"
    using f(5) by (simp add: feedback_mode_def)
  have during: "\<exists>s2. run es (validated s) = Some s2 \<and> conversion_allowed s2 = 0"
    if "ticks es < 3" for es
  proof -
    have "unat (seconds (validated s)) + ticks es < 3" using that f(6) by simp
    from window_run [OF f(4,5) this] show ?thesis by (auto simp add: feedback_mode_def)
  qed
  have after: "\<exists>s3. run (es @ [Timer_tick]) (validated s) = Some s3 \<and> conversion_allowed s3 = 1"
    if "ticks es = 2" for es
  proof -
    have "unat (seconds (validated s)) + ticks es < 3" using that f(6) by simp
    from window_run [OF f(4,5) this] obtain s2 where
      s2: "run es (validated s) = Some s2" "lock_inv s2" "feedback_mode s2"
          "unat (seconds s2) = unat (seconds (validated s)) + ticks es" by blast
    have "seconds s2 = 2" using s2(4) that f(6) by (simp add: seconds_two)
    from feedback_tick_restart(1) [OF s2(2,3) this]
    have "run (es @ [Timer_tick]) (validated s) = Some (restart s2)"
      using s2(1) by (simp add: run_append del: deliver.simps)
    then show ?thesis by (simp add: restart_def)
  qed
  show ?thesis using f(3) closed during after by blast
qed

text \<open>
  Scenario B up to the fourth button press; then two ticks with a button press and a
  pass of the main loop between them, and the third tick.
\<close>

theorem gate_closed_for_window_witness:
  "run three_entered (initial zero_regs) = Some (the (run three_entered (initial zero_regs))) \<and>
   pressed (the (run three_entered (initial zero_regs))) = 1 \<and>
   conversion_allowed (the (run three_entered (initial zero_regs))) \<noteq> 0 \<and>
   data_cnt (the (run three_entered (initial zero_regs))) = 3 \<and>
   ticks [Timer_tick, Confirm_edge, Loop_pass, Timer_tick] = 2 \<and>
   map_option conversion_allowed
     (run [Timer_tick, Confirm_edge, Loop_pass, Timer_tick]
        (the (main_loop (the (run three_entered (initial zero_regs)))))) = Some 0 \<and>
   map_option conversion_allowed
     (run ([Timer_tick, Confirm_edge, Loop_pass, Timer_tick] @ [Timer_tick])
        (the (main_loop (the (run three_entered (initial zero_regs)))))) = Some 1"
proof -
  let ?a = "the (run three_entered (initial zero_regs))"
  let ?w = "[Timer_tick, Confirm_edge, Loop_pass, Timer_tick]"
  have h1: "run three_entered (initial zero_regs) = Some ?a" by code_simp
  have h2: "pressed ?a = 1" by code_simp
  have h3: "conversion_allowed ?a \<noteq> 0" by code_simp
  have h4: "data_cnt ?a = 3" by code_simp
  have t: "ticks ?w = 2" by simp
  from gate_closed_for_window [OF h1 h2 h3 h4] obtain s1 where
    s1: "main_loop ?a = Some s1"
        "\<forall>es. ticks es < 3 \<longrightarrow> (\<exists>s2. run es s1 = Some s2 \<and> conversion_allowed s2 = 0)"
        "\<forall>es. ticks es = 2 \<longrightarrow>
           (\<exists>s3. run (es @ [Timer_tick]) s1 = Some s3 \<and> conversion_allowed s3 = 1)" by blast
  have eq: "the (main_loop ?a) = s1" using s1(1) by simp
  from s1(2) [rule_format, of ?w] t
  have a: "map_option conversion_allowed (run ?w s1) = Some 0" by auto
  from s1(3) [rule_format, OF t]
  have b: "map_option conversion_allowed (run (?w @ [Timer_tick]) s1) = Some 1" by auto
  show ?thesis unfolding eq using h1 h2 h3 h4 t a b by simp
qed

subsection \<open>C7: the feedback window lasts three ticks\<close>

text \<open>
  C7. After the pass that validates the fourth digit \<open>seconds\<close> is 0. While fewer than
  two ticks have come since, whatever else happens, \<open>seconds\<close> counts the ticks, and
  the next tick only increments \<open>seconds\<close> (the interrupt flag raised by the hardware is
  cleared again). After two ticks \<open>seconds\<close> is 2, the indicator and the display are
  still as validation left them, and the third tick turns both indicator outputs off,
  clears \<open>CCIE\<close>, calls \<^verbatim>\<open>lcd_command(0x01)\<close> and \<^verbatim>\<open>lcd_begin()\<close>, by which the
  display receives the clear command and the entry screen (four zeros, \<open>Enter PW\<close> on
  the second line, cursor back on the first digit), and puts the controller back into
  entry mode with \<open>data_cnt = 0\<close>.
\<close>

theorem feedback_window_three_ticks:
  assumes "run es0 (initial r) = Some s" and "pressed s = 1"
    and "conversion_allowed s \<noteq> 0" and "data_cnt s = 3"
  shows "\<exists>s1. main_loop s = Some s1 \<and> seconds s1 = 0 \<and>
           (\<forall>es. ticks es < 2 \<longrightarrow>
              (\<exists>s2. run es s1 = Some s2 \<and> unat (seconds s2) = ticks es \<and>
                 deliver Timer_tick s2 =
                   Some (s2\<lparr>seconds := seconds s2 + 1,
                            TA0CCTL0 := (TA0CCTL0 s2 OR CCIFG) AND NOT CCIFG\<rparr>))) \<and>
           (\<forall>es. ticks es = 2 \<longrightarrow>
              (\<exists>s2 s3. run es s1 = Some s2 \<and> seconds s2 = 2 \<and>
                 P4OUT s2 = P4OUT s1 \<and> P8OUT s2 = P8OUT s1 \<and>
                 TA0CCTL0 s2 AND CCIE \<noteq> 0 \<and>
                 deliver Timer_tick s2 = Some s3 \<and>
                 P4OUT s3 AND BIT3 = 0 \<and> P4OUT s3 AND BIT4 = 0 \<and>
                 TA0CCTL0 s3 AND CCIE = 0 \<and>
                 P8OUT s3 = P8OUT (lcd_begin (lcd_command 0x01 s2)) \<and>
                 lcd_read (drop (length (P8OUT s2)) (P8OUT s3)) =
                   Command 0x01 # Command 0x80 # characters ''0000'' @
                   Command 0xC1 # characters ''Enter PW'' @ [Command 0x80] \<and>
                 entry_mode s3 \<and> data_cnt s3 = 0))"
proof -
  note f = fourth_confirmation [OF assms]
  have early: "\<exists>s2. run es (validated s) = Some s2 \<and> unat (seconds s2) = ticks es \<and>
                 deliver Timer_tick s2 =
                   Some (s2\<lparr>seconds := seconds s2 + 1,
                            TA0CCTL0 := (TA0CCTL0 s2 OR CCIFG) AND NOT CCIFG\<rparr>)"
    if "ticks es < 2" for es
  proof -
    have "unat (seconds (validated s)) + ticks es < 3" using that f(6) by simp
    from window_run [OF f(4,5) this] obtain s2 where
      s2: "run es (validated s) = Some s2" "lock_inv s2" "feedback_mode s2"
          "unat (seconds s2) = unat (seconds (validated s)) + ticks es" by blast
    have n: "unat (seconds s2) = ticks es" using s2(4) f(6) by simp
    then have "seconds s2 < 2" using that by unat_arith
    from feedback_tick_count(1) [OF s2(2,3) this] show ?thesis using s2(1) n by blast
  qed
  have third: "\<exists>s2 s3. run es (validated s) = Some s2 \<and> seconds s2 = 2 \<and>
                 P4OUT s2 = P4OUT (validated s) \<and> P8OUT s2 = P8OUT (validated s) \<and>
                 TA0CCTL0 s2 AND CCIE \<noteq> 0 \<and>
                 deliver Timer_tick s2 = Some s3 \<and>
                 P4OUT s3 AND BIT3 = 0 \<and> P4OUT s3 AND BIT4 = 0 \<and>
                 TA0CCTL0 s3 AND CCIE = 0 \<and>
                 P8OUT s3 = P8OUT (lcd_begin (lcd_command 0x01 s2)) \<and>
                 lcd_read (drop (length (P8OUT s2)) (P8OUT s3)) =
                   Command 0x01 # Command 0x80 # characters ''0000'' @
                   Command 0xC1 # characters ''Enter PW'' @ [Command 0x80] \<and>
                 entry_mode s3 \<and> data_cnt s3 = 0"
    if "ticks es = 2" for es
  proof -
    have "unat (seconds (validated s)) + ticks es < 3" using that f(6) by simp
    from window_run [OF f(4,5) this] obtain s2 where
      s2: "run es (validated s) = Some s2" "lock_inv s2" "feedback_mode s2"
          "unat (seconds s2) = unat (seconds (validated s)) + ticks es"
          "P4OUT s2 = P4OUT (validated s)" "P8OUT s2 = P8OUT (validated s)" by blast
    have two: "seconds s2 = 2" using s2(4) that f(6) by (simp add: seconds_two)
    note t = feedback_tick_restart [OF s2(2,3) two]
    have en: "TA0CCTL0 s2 AND CCIE \<noteq> 0" and zero: "data_cnt s2 = 0"
      using s2(3) by (simp_all add: feedback_mode_def)
    have off: "P4OUT (restart s2) AND BIT3 = 0" "P4OUT (restart s2) AND BIT4 = 0"
      "TA0CCTL0 (restart s2) AND CCIE = 0"
      using t(3) by (simp_all add: entry_mode_def)
    have app: "P8OUT (restart s2) = P8OUT s2 @ lcd_out (lcd_command 0x01) @ begin_writes"
      and cnt: "data_cnt (restart s2) = 0"
      using zero by (simp_all add: restart_def)
    have out: "P8OUT (restart s2) = P8OUT (lcd_begin (lcd_command 0x01 s2))"
      using app by (simp add: entry_screen_trace)
    have shown: "lcd_read (drop (length (P8OUT s2)) (P8OUT (restart s2))) =
        Command 0x01 # Command 0x80 # characters ''0000'' @
        Command 0xC1 # characters ''Enter PW'' @ [Command 0x80]"
      unfolding app using read_entry_screen by simp
    show ?thesis using s2(1,5,6) two en t(1,3) off out shown cnt by blast
  qed
  show ?thesis using f(3,6) early third by blast
qed

text \<open>Scenario B: one tick, a button press and a pass of the main loop, the second tick.\<close>

theorem feedback_window_three_ticks_witness:
  "run three_entered (initial zero_regs) = Some (the (run three_entered (initial zero_regs))) \<and>
   pressed (the (run three_entered (initial zero_regs))) = 1 \<and>
   conversion_allowed (the (run three_entered (initial zero_regs))) \<noteq> 0 \<and>
   data_cnt (the (run three_entered (initial zero_regs))) = 3 \<and>
   ticks [Timer_tick, Confirm_edge, Loop_pass] < 2 \<and>
   ticks [Timer_tick, Confirm_edge, Loop_pass, Timer_tick] = 2 \<and>
   map_option seconds
     (run [Timer_tick, Confirm_edge, Loop_pass]
        (the (main_loop (the (run three_entered (initial zero_regs)))))) = Some 1 \<and>
   map_option seconds
     (run [Timer_tick, Confirm_edge, Loop_pass, Timer_tick]
        (the (main_loop (the (run three_entered (initial zero_regs)))))) = Some 2"
proof -
  let ?a = "the (run three_entered (initial zero_regs))"
  let ?v = "[Timer_tick, Confirm_edge, Loop_pass]"
  let ?w = "[Timer_tick, Confirm_edge, Loop_pass, Timer_tick]"
  have h1: "run three_entered (initial zero_regs) = Some ?a" by code_simp
  have h2: "pressed ?a = 1" by code_simp
  have h3: "conversion_allowed ?a \<noteq> 0" by code_simp
  have h4: "data_cnt ?a = 3" by code_simp
  have tv: "ticks ?v < 2" and tw: "ticks ?w = 2" by simp_all
  from feedback_window_three_ticks [OF h1 h2 h3 h4] obtain s1 where
    s1: "main_loop ?a = Some s1"
        "\<forall>es. ticks es < 2 \<longrightarrow> (\<exists>s2. run es s1 = Some s2 \<and> unat (seconds s2) = ticks es \<and>
                 deliver Timer_tick s2 =
                   Some (s2\<lparr>seconds := seconds s2 + 1,
                            TA0CCTL0 := (TA0CCTL0 s2 OR CCIFG) AND NOT CCIFG\<rparr>))"
        "\<forall>es. ticks es = 2 \<longrightarrow> (\<exists>s2 s3. run es s1 = Some s2 \<and> seconds s2 = 2 \<and>
                 P4OUT s2 = P4OUT s1 \<and> P8OUT s2 = P8OUT s1 \<and>
                 TA0CCTL0 s2 AND CCIE \<noteq> 0 \<and>
                 deliver Timer_tick s2 = Some s3 \<and>
                 P4OUT s3 AND BIT3 = 0 \<and> P4OUT s3 AND BIT4 = 0 \<and>
                 TA0CCTL0 s3 AND CCIE = 0 \<and>
                 P8OUT s3 = P8OUT (lcd_begin (lcd_command 0x01 s2)) \<and>
                 lcd_read (drop (length (P8OUT s2)) (P8OUT s3)) =
                   Command 0x01 # Command 0x80 # characters ''0000'' @
                   Command 0xC1 # characters ''Enter PW'' @ [Command 0x80] \<and>
                 entry_mode s3 \<and> data_cnt s3 = 0)" by blast
  have eq: "the (main_loop ?a) = s1" using s1(1) by simp
  from s1(2) [rule_format, OF tv] obtain s2 where
    s2: "run ?v s1 = Some s2" "unat (seconds s2) = ticks ?v" by blast
  from s2(2) have "unat (seconds s2) = 1" by simp
  then have "seconds s2 = 1" by (simp add: word_unat_eq_iff)
  with s2(1) have a: "map_option seconds (run ?v s1) = Some 1" by simp
  from s1(3) [rule_format, OF tw]
  have b: "map_option seconds (run ?w s1) = Some 2" by auto
  show ?thesis unfolding eq using h1 h2 h3 h4 tv tw a b by simp
qed

subsection \<open>C8: arming the feedback timer\<close>

text \<open>
  C8. The pass of the main loop that consumes the fourth confirmation runs
  \<^verbatim>\<open>check_password\<close> and \<^verbatim>\<open>turn_on_led\<close>. After it \<open>seconds\<close> is 0 (no statement
  of the path assigns it; it is 0 in every state with the gate open), the timer runs
  in up mode from ACLK with the period \<open>ONE_SECOND\<close>, which is 32767, and \<open>CCIE\<close> is
  set. If the four digits equal the password, \<open>correct\<close> is 1, the display receives the
  clear command and \<open>UNLOCKED\<close> at position 0x84, and P4.3 is set. Otherwise
  \<open>correct\<close> is 0, the display receives the clear command, \<open>WRONG\<close> at 0x85 and
  \<open>PASSWORD\<close> at 0xC4 (the second line), and P4.4 is set.
\<close>

theorem arming_feedback:
  assumes "run es0 (initial r) = Some s" and "pressed s = 1"
    and "conversion_allowed s \<noteq> 0" and "data_cnt s = 3"
  shows "\<exists>s1. main_loop s = Some s1 \<and> seconds s1 = 0 \<and>
           TA0CTL s1 = TASSEL__ACLK OR MC__UP \<and> TA0CCR0 s1 = ONE_SECOND \<and>
           TA0CCR0 s1 = 32767 \<and> TA0CCTL0 s1 AND CCIE \<noteq> 0 \<and>
           guess s1 = (guess s)[3 := ucast (sampled_digit s)] \<and>
           (guess s1 = password s \<longrightarrow>
              correct s1 = 1 \<and>
              P8OUT s1 = P8OUT (lcd_text ''UNLOCKED'' 0x84 (lcd_command 0x01 s)) \<and>
              lcd_read (drop (length (P8OUT s)) (P8OUT s1)) =
                Command 0x01 # Command 0x84 # characters ''UNLOCKED'' \<and>
              P4OUT s1 = P4OUT s OR BIT3 \<and> P4OUT s1 AND BIT3 \<noteq> 0 \<and> P4OUT s1 AND BIT4 = 0) \<and>
           (guess s1 \<noteq> password s \<longrightarrow>
              correct s1 = 0 \<and>
              P8OUT s1 =
                P8OUT (lcd_text ''PASSWORD'' 0xC4 (lcd_text ''WRONG'' 0x85 (lcd_command 0x01 s))) \<and>
              lcd_read (drop (length (P8OUT s)) (P8OUT s1)) =
                Command 0x01 # Command 0x85 # characters ''WRONG'' @
                Command 0xC4 # characters ''PASSWORD'' \<and>
              P4OUT s1 = P4OUT s OR BIT4 \<and> P4OUT s1 AND BIT4 \<noteq> 0 \<and> P4OUT s1 AND BIT3 = 0)"
proof -
  note f = fourth_confirmation [OF assms]
  have one: "correct s = 1" using f(2) by (simp add: entry_mode_def)
  have timer: "TA0CTL (validated s) = TASSEL__ACLK OR MC__UP" "TA0CCR0 (validated s) = ONE_SECOND"
    "TA0CCTL0 (validated s) AND CCIE \<noteq> 0"
    using f(5) by (simp_all add: feedback_mode_def)
  have period: "TA0CCR0 (validated s) = 32767"
    using timer(2) by (simp add: ONE_SECOND_def)
  have g: "guess (validated s) = (guess s)[3 := ucast (sampled_digit s)]"
    by (simp add: validated_def Let_def)
  have right: "correct (validated s) = 1 \<and>
      P8OUT (validated s) = P8OUT (lcd_text ''UNLOCKED'' 0x84 (lcd_command 0x01 s)) \<and>
      lcd_read (drop (length (P8OUT s)) (P8OUT (validated s))) =
        Command 0x01 # Command 0x84 # characters ''UNLOCKED'' \<and>
      P4OUT (validated s) = P4OUT s OR BIT3 \<and> P4OUT (validated s) AND BIT3 \<noteq> 0 \<and>
      P4OUT (validated s) AND BIT4 = 0"
    if "guess (validated s) = password s"
  proof -
    have eq: "(guess s)[3 := ucast (sampled_digit s)] = password s" using that g by simp
    have "correct (validated s) = 1" and app: "P8OUT (validated s) = P8OUT s @ unlocked_writes"
      and "P4OUT (validated s) = P4OUT s OR BIT3"
      using eq one by (simp_all add: validated_def Let_def)
    moreover have "P8OUT (validated s) = P8OUT (lcd_text ''UNLOCKED'' 0x84 (lcd_command 0x01 s))"
      using app by (simp add: unlocked_trace)
    moreover have "lcd_read (drop (length (P8OUT s)) (P8OUT (validated s))) =
        Command 0x01 # Command 0x84 # characters ''UNLOCKED''"
      unfolding app using read_unlocked by simp
    ultimately show ?thesis using f(5) by (auto simp add: feedback_mode_def)
  qed
  have wrong: "correct (validated s) = 0 \<and>
      P8OUT (validated s) =
        P8OUT (lcd_text ''PASSWORD'' 0xC4 (lcd_text ''WRONG'' 0x85 (lcd_command 0x01 s))) \<and>
      lcd_read (drop (length (P8OUT s)) (P8OUT (validated s))) =
        Command 0x01 # Command 0x85 # characters ''WRONG'' @
        Command 0xC4 # characters ''PASSWORD'' \<and>
      P4OUT (validated s) = P4OUT s OR BIT4 \<and> P4OUT (validated s) AND BIT4 \<noteq> 0 \<and>
      P4OUT (validated s) AND BIT3 = 0"
    if "guess (validated s) \<noteq> password s"
  proof -
    have neq: "(guess s)[3 := ucast (sampled_digit s)] \<noteq> password s" using that g by simp
    have "correct (validated s) = 0" and app: "P8OUT (validated s) = P8OUT s @ wrong_writes"
      and "P4OUT (validated s) = P4OUT s OR BIT4"
      using neq by (simp_all add: validated_def Let_def)
    moreover have "P8OUT (validated s) =
        P8OUT (lcd_text ''PASSWORD'' 0xC4 (lcd_text ''WRONG'' 0x85 (lcd_command 0x01 s)))"
      using app by (simp add: wrong_trace)
    moreover have "lcd_read (drop (length (P8OUT s)) (P8OUT (validated s))) =
        Command 0x01 # Command 0x85 # characters ''WRONG'' @
        Command 0xC4 # characters ''PASSWORD''"
      unfolding app using read_wrong by simp
    ultimately show ?thesis using f(5) by (auto simp add: feedback_mode_def)
  qed
  show ?thesis
    using f(3,6) timer period g right wrong by blast
qed

text \<open>Scenario B arms the timer with the failure message and the failure indicator.\<close>

theorem arming_feedback_witness:
  "run three_entered (initial zero_regs) = Some (the (run three_entered (initial zero_regs))) \<and>
   pressed (the (run three_entered (initial zero_regs))) = 1 \<and>
   conversion_allowed (the (run three_entered (initial zero_regs))) \<noteq> 0 \<and>
   data_cnt (the (run three_entered (initial zero_regs))) = 3 \<and>
   map_option guess (main_loop (the (run three_entered (initial zero_regs)))) = Some [1, 2, 9, 4] \<and>
   map_option correct (main_loop (the (run three_entered (initial zero_regs)))) = Some 0 \<and>
   map_option seconds (main_loop (the (run three_entered (initial zero_regs)))) = Some 0 \<and>
   map_option TA0CCR0 (main_loop (the (run three_entered (initial zero_regs)))) = Some 32767"
proof -
  let ?a = "the (run three_entered (initial zero_regs))"
  have h1: "run three_entered (initial zero_regs) = Some ?a" by code_simp
  have h2: "pressed ?a = 1" by code_simp
  have h3: "conversion_allowed ?a \<noteq> 0" by code_simp
  have h4: "data_cnt ?a = 3" by code_simp
  have g: "(guess ?a)[3 := ucast (sampled_digit ?a)] = [1, 2, 9, 4]" by code_simp
  have p: "password ?a = [1, 2, 3, 4]" by code_simp
  from arming_feedback [OF h1 h2 h3 h4] obtain s1 where
    s1: "main_loop ?a = Some s1" "seconds s1 = 0" "TA0CCR0 s1 = 32767"
        "guess s1 = (guess ?a)[3 := ucast (sampled_digit ?a)]"
        "guess s1 \<noteq> password ?a \<longrightarrow> correct s1 = 0"
    by blast
  have "guess s1 \<noteq> password ?a" using s1(4) g p by simp
  with s1(5) have "correct s1 = 0" by blast
  then show ?thesis using h1 h2 h3 h4 s1(1,2,3,4) g by simp
qed

subsection \<open>C9: the success indicator is 1 whenever the gate is open\<close>

text \<open>
  C9. In every state the program reaches, \<open>correct = 1\<close> whenever
  \<open>conversion_allowed\<close> is nonzero, so at the start of every validation.
  \<^verbatim>\<open>check_password\<close> never sets \<open>correct\<close> to 1: it leaves it or clears it. The
  timer routine sets it to 1 when it ends a feedback window. Every handler and the
  main loop preserve the invariant, from any state.
\<close>

theorem correct_while_accepting:
  "(\<exists>s. run es (initial r) = Some s \<and> (conversion_allowed s \<noteq> 0 \<longrightarrow> correct s = 1)) \<and>
   (correct (check_password v) = correct v \<or> correct (check_password v) = 0) \<and>
   (2 < seconds v + 1 \<longrightarrow> correct (Timer_A_CCR0_ISR v) = 1) \<and>
   ((conversion_allowed u \<noteq> 0 \<longrightarrow> correct u = 1) \<and> deliver e u = Some u'
      \<longrightarrow> (conversion_allowed u' \<noteq> 0 \<longrightarrow> correct u' = 1))"
proof -
  from lock_inv_run [OF lock_inv_initial, of es r] obtain s where
    s: "run es (initial r) = Some s" "lock_inv s" by blast
  have "conversion_allowed s \<noteq> 0 \<longrightarrow> correct s = 1"
    using s(2) by (auto simp add: lock_inv_def entry_mode_def feedback_mode_def)
  with s(1) have a: "\<exists>s. run es (initial r) = Some s \<and> (conversion_allowed s \<noteq> 0 \<longrightarrow> correct s = 1)"
    by blast
  have c: "2 < seconds v + 1 \<longrightarrow> correct (Timer_A_CCR0_ISR v) = 1"
    by (simp add: timer_restart)
  show ?thesis using a check_password_never_sets [of v] c gate_inv_deliver [of u e u'] by blast
qed

text \<open>
  After the first digit of a cycle has been entered the gate is open and \<open>correct\<close> is 1;
  a matching guess validated with \<open>correct = 0\<close> would still be reported as wrong.
\<close>

theorem correct_while_accepting_witness:
  "conversion_allowed (the (run (enter 0x0100) (initial zero_regs))) \<noteq> 0 \<and>
   correct (the (run (enter 0x0100) (initial zero_regs))) = 1 \<and>
   guess ((startup zero_regs)\<lparr>guess := [1, 2, 3, 4], correct := 0\<rparr>) =
     password ((startup zero_regs)\<lparr>guess := [1, 2, 3, 4], correct := 0\<rparr>) \<and>
   correct (check_password ((startup zero_regs)\<lparr>guess := [1, 2, 3, 4], correct := 0\<rparr>)) = 0"
proof -
  let ?a = "the (run (enter 0x0100) (initial zero_regs))"
  let ?b = "(startup zero_regs)\<lparr>guess := [1, 2, 3, 4], correct := 0\<rparr>"
  note T = correct_while_accepting [where es = "enter 0x0100" and r = zero_regs and v = ?b]
  have open': "conversion_allowed ?a \<noteq> 0" by code_simp
  from T obtain s where s: "run (enter 0x0100) (initial zero_regs) = Some s"
    "conversion_allowed s \<noteq> 0 \<longrightarrow> correct s = 1" by blast
  from s(1) have "s = ?a" by simp
  with s(2) open' have one: "correct ?a = 1" by simp
  have z: "correct ?b = 0" and g: "guess ?b = password ?b"
    by (simp_all add: startup_def zero_regs_def)
  from T z have "correct (check_password ?b) = 0" by auto
  with open' one g show ?thesis by simp
qed

subsection \<open>C10: the converter is off during the feedback window\<close>

text \<open>
  C10. \<^verbatim>\<open>check_password\<close> clears \<open>ADC12ENC\<close> and \<open>ADC12IE0\<close>, and the timer routine
  sets both again when it ends the window. So in every state the program reaches with
  the gate closed (\<open>conversion_allowed = 0\<close>, the feedback window) the conversion and
  its interrupt are disabled, and the end of a conversion changes nothing at all: the
  conversion result, the display trace and the alive indicator on P4.5 stay as they are.
\<close>

theorem sampler_off_during_feedback:
  "(run es (initial r) = Some s \<and> conversion_allowed s = 0 \<longrightarrow>
      ADC12CTL0 s AND ADC12ENC = 0 \<and> ADC12IE s AND ADC12IE0 = 0 \<and>
      deliver (Conversion iv raw) s = Some s) \<and>
   ADC12CTL0 (check_password v) AND ADC12ENC = 0 \<and>
   ADC12IE (check_password v) AND ADC12IE0 = 0 \<and>
   (2 < seconds v + 1 \<longrightarrow>
      ADC12CTL0 (Timer_A_CCR0_ISR v) AND ADC12ENC \<noteq> 0 \<and>
      ADC12IE (Timer_A_CCR0_ISR v) AND ADC12IE0 \<noteq> 0)"
proof -
  have a: "ADC12CTL0 s AND ADC12ENC = 0 \<and> ADC12IE s AND ADC12IE0 = 0 \<and>
      deliver (Conversion iv raw) s = Some s"
    if "run es (initial r) = Some s" "conversion_allowed s = 0"
  proof -
    have inv: "lock_inv s" using that(1) by (rule reachable_inv)
    then have f: "feedback_mode s" using that(2) by (auto simp add: lock_inv_def entry_mode_def)
    show ?thesis using f deliver_conversion_feedback [OF f] by (simp add: feedback_mode_def)
  qed
  let ?v = "v\<lparr>ADC12CTL0 := ADC12CTL0 v AND NOT ADC12ENC, ADC12IE := ADC12IE v AND NOT ADC12IE0,
          TA0CCR0 := 0, TA0CTL := MC__STOP, data_cnt := 0\<rparr>"
  have led: "ADC12CTL0 (turn_on_led x) = ADC12CTL0 x \<and> ADC12IE (turn_on_led x) = ADC12IE x" for x
  proof -
    consider "correct x = 0" | "correct x = 1" | "correct x \<noteq> 0" "correct x \<noteq> 1" by blast
    then show ?thesis
    proof cases
      case 1
      then show ?thesis by (simp add: turn_on_led_wrong)
    next
      case 2
      then show ?thesis by (simp add: turn_on_led_right)
    next
      case 3
      then show ?thesis by (simp add: turn_on_led_def Let_def)
    qed
  qed
  from password_loop_state [of 0 ?v 0]
  have b: "ADC12CTL0 (check_password v) AND ADC12ENC = 0 \<and>
           ADC12IE (check_password v) AND ADC12IE0 = 0"
    unfolding check_password_unfold by (auto simp add: led mask_simps)
  have c: "2 < seconds v + 1 \<longrightarrow>
      ADC12CTL0 (Timer_A_CCR0_ISR v) AND ADC12ENC \<noteq> 0 \<and>
      ADC12IE (Timer_A_CCR0_ISR v) AND ADC12IE0 \<noteq> 0"
    by (simp add: timer_restart mask_simps)
  show ?thesis using a b c by blast
qed

text \<open>After scenario B the window is open; a conversion that ends then is not seen.\<close>

theorem sampler_off_during_feedback_witness:
  "run scenario_B (initial zero_regs) = Some (the (run scenario_B (initial zero_regs))) \<and>
   conversion_allowed (the (run scenario_B (initial zero_regs))) = 0 \<and>
   deliver (Conversion 6 0x0500) (the (run scenario_B (initial zero_regs))) =
     Some (the (run scenario_B (initial zero_regs)))"
proof -
  have h1: "run scenario_B (initial zero_regs) = Some (the (run scenario_B (initial zero_regs)))"
    by code_simp
  have h2: "conversion_allowed (the (run scenario_B (initial zero_regs))) = 0"
    by code_simp
  from sampler_off_during_feedback [where es = scenario_B and r = zero_regs
      and s = "the (run scenario_B (initial zero_regs))" and iv = 6 and raw = "0x0500"] h1 h2
  show ?thesis by blast
qed

end
